theory Spec2Isabelle
  imports Main "HOL-Library.AList" "HOL-Library.Char_ord" "HOL-Library.List_Lexorder"
begin

section \<open>Wall-clock time and the two layouts the logger formats\<close>

text \<open>
  \<^verbatim>\<open>time.Time\<close> as the logger observes it: the civil date and the clock of
  \<^verbatim>\<open>time.Now()\<close>. The Go standard library is not part of the repository; the
  functions below follow its documented behaviour for exactly the calls
  \<^verbatim>\<open>logfile.go\<close> makes.
\<close>

record time =
  year :: int
  month :: nat
  day :: nat
  hour :: nat
  minute :: nat
  second :: nat

definition isLeap :: "int \<Rightarrow> bool" where
  "isLeap y = (y mod 4 = 0 \<and> (y mod 100 \<noteq> 0 \<or> y mod 400 = 0))"

definition daysIn :: "nat \<Rightarrow> int \<Rightarrow> nat" where
  "daysIn m y =
     (if m = 2 then (if isLeap y then 29 else 28)
      else if m = 4 \<or> m = 6 \<or> m = 9 \<or> m = 11 then 30 else 31)"

definition valid_date :: "time \<Rightarrow> bool" where
  "valid_date t = (1 \<le> month t \<and> month t \<le> 12 \<and> 1 \<le> day t \<and> day t \<le> daysIn (month t) (year t))"

definition prevDay :: "time \<Rightarrow> time" where
  "prevDay t =
     (if 1 < day t then t\<lparr>day := day t - 1\<rparr>
      else if 1 < month t then t\<lparr>month := month t - 1, day := daysIn (month t - 1) (year t)\<rparr>
      else t\<lparr>year := year t - 1, month := 12, day := 31\<rparr>)"

definition nextDay :: "time \<Rightarrow> time" where
  "nextDay t =
     (if day t < daysIn (month t) (year t) then t\<lparr>day := day t + 1\<rparr>
      else if month t < 12 then t\<lparr>month := month t + 1, day := 1\<rparr>
      else t\<lparr>year := year t + 1, month := 1, day := 1\<rparr>)"

text \<open>
  \<^verbatim>\<open>t.AddDate(0, 0, days)\<close>: the same clock on the calendar day \<open>days\<close> later
  (earlier when negative); Go normalises the day overflow through the calendar.
\<close>

definition AddDate_days :: "time \<Rightarrow> int \<Rightarrow> time" where
  "AddDate_days t days =
     (if 0 \<le> days then (nextDay ^^ nat days) t else (prevDay ^^ nat (- days)) t)"

definition digit :: "nat \<Rightarrow> char" where
  "digit n = char_of (48 + n)"

fun digits :: "nat \<Rightarrow> string" where
  "digits n = (if n < 10 then [digit n] else digits (n div 10) @ [digit (n mod 10)])"

declare digits.simps [simp del]

text \<open>\<^verbatim>\<open>appendInt(b, x, width)\<close> of package time: sign, zero padding, decimal digits.\<close>

definition appendInt :: "int \<Rightarrow> nat \<Rightarrow> string" where
  "appendInt x width =
     (if x < 0 then ''-'' else []) @
     replicate (width - length (digits (nat \<bar>x\<bar>))) (CHR ''0'') @ digits (nat \<bar>x\<bar>)"

text \<open>\<^verbatim>\<open>t.Format("20060102")\<close>\<close>

definition Format_20060102 :: "time \<Rightarrow> string" where
  "Format_20060102 t = appendInt (year t) 4 @ appendInt (int (month t)) 2 @ appendInt (int (day t)) 2"

text \<open>\<^verbatim>\<open>t.Format("2006-01-02 15:04:05")\<close>\<close>

definition Format_stamp :: "time \<Rightarrow> string" where
  "Format_stamp t =
     appendInt (year t) 4 @ ''-'' @ appendInt (int (month t)) 2 @ ''-'' @ appendInt (int (day t)) 2 @
     '' '' @ appendInt (int (hour t)) 2 @ '':'' @ appendInt (int (minute t)) 2 @ '':'' @
     appendInt (int (second t)) 2"

section \<open>Strings\<close>

definition HasPrefix :: "string \<Rightarrow> string \<Rightarrow> bool" where
  "HasPrefix s p = (length p \<le> length s \<and> take (length p) s = p)"

definition HasSuffix :: "string \<Rightarrow> string \<Rightarrow> bool" where
  "HasSuffix s suffix = (length suffix \<le> length s \<and> drop (length s - length suffix) s = suffix)"

section \<open>The file system, the console and the scheduler's record\<close>

text \<open>
  A path is the pair that \<^verbatim>\<open>filepath.Join(dir, name)\<close> joins. The world holds the
  directory entries (in the order \<^verbatim>\<open>os.ReadDir\<close> lists them), the open file
  descriptors, what was printed, every \<^verbatim>\<open>os.OpenFile\<close> call made, and how many
  retention sweeps were started with \<^verbatim>\<open>go\<close> (they run concurrently with the worker and
  are recorded, not executed, by the worker's step). Two fields say when the operating
  system answers with an error: \<open>replies\<close> holds what the device answers to the writes
  to come, in order (\<open>Some n\<close>: the write is cut short after at most \<open>n\<close> bytes and fails;
  \<open>None\<close>, or no entry left: it succeeds); \<open>busy\<close> lists the files it refuses to remove.
\<close>

datatype node = Dir | File string

type_synonym path = "string \<times> string"

datatype report =
    Started string int
  | Stopped string
  | OpenFailed string
  | Unsaved string
  | DateChanged string
  | Cleaned string

record world =
  entries :: "(path \<times> node) list"
  fds :: "nat \<rightharpoonup> path"
  nextfd :: nat
  console :: "report list"
  opens :: "path list"
  sweeps :: nat
  replies :: "nat option list"
  busy :: "path list"

definition Join :: "string \<Rightarrow> string \<Rightarrow> path" where
  "Join d n = (d, n)"

definition contents :: "world \<Rightarrow> path \<Rightarrow> string" where
  "contents w p = (case map_of (entries w) p of Some (File b) \<Rightarrow> b | _ \<Rightarrow> [])"

definition Printf :: "report \<Rightarrow> world \<Rightarrow> world" where
  "Printf r w = w\<lparr>console := console w @ [r]\<rparr>"

text \<open>
  \<^verbatim>\<open>os.OpenFile(p, O_APPEND|O_CREATE|O_WRONLY, 0644)\<close>. \<open>oerr\<close> is the error the
  operating system answers with at this call, if any (disk full, permission revoked,
  directory gone); a directory of that name is an error too. An existing file is kept
  as it is (append), a missing one is created empty.
\<close>

definition os_OpenFile :: "world \<Rightarrow> path \<Rightarrow> string option \<Rightarrow> (string + nat) \<times> world" where
  "os_OpenFile w p oerr =
     (let w1 = w\<lparr>opens := opens w @ [p]\<rparr> in
      case oerr of
        Some e \<Rightarrow> (Inl e, w1)
      | None \<Rightarrow>
          (case map_of (entries w) p of
             Some Dir \<Rightarrow> (Inl ''is a directory'', w1)
           | Some (File b) \<Rightarrow>
               (Inr (nextfd w), w1\<lparr>fds := (fds w)(nextfd w \<mapsto> p), nextfd := nextfd w + 1\<rparr>)
           | None \<Rightarrow>
               (Inr (nextfd w),
                w1\<lparr>entries := entries w @ [(p, File [])],
                   fds := (fds w)(nextfd w \<mapsto> p), nextfd := nextfd w + 1\<rparr>)))"

text \<open>
  \<^verbatim>\<open>f.Write(bytes)\<close> through a descriptor opened with \<^verbatim>\<open>O_APPEND\<close>: the number of bytes
  written and the error, if any. A closed descriptor takes nothing. Otherwise the write
  uses up the device's next reply: it fails after at most \<open>n\<close> bytes when that is
  \<open>Some n\<close>. The bytes go to the file the descriptor was opened on: when that file is no
  longer in the directory under its name (it was removed while open) no name reaches
  them.
\<close>

definition os_Write :: "world \<Rightarrow> nat \<Rightarrow> string \<Rightarrow> (nat \<times> string option) \<times> world" where
  "os_Write w f bytes =
     (case fds w f of
        None \<Rightarrow> ((0, Some ''file already closed''), w)
      | Some p \<Rightarrow>
          (let n = (case replies w of Some k # rs \<Rightarrow> min k (length bytes) | _ \<Rightarrow> length bytes);
               err = (case replies w of Some k # rs \<Rightarrow> Some ''input/output error'' | _ \<Rightarrow> None);
               w1 = (case replies w of [] \<Rightarrow> w | r # rs \<Rightarrow> w\<lparr>replies := rs\<rparr>);
               w2 = (case map_of (entries w) p of
                       Some (File b) \<Rightarrow>
                         w1\<lparr>entries := AList.update p (File (b @ take n bytes)) (entries w)\<rparr>
                     | _ \<Rightarrow> w1)
           in ((n, err), w2)))"

definition os_Close :: "world \<Rightarrow> nat \<Rightarrow> world" where
  "os_Close w f = w\<lparr>fds := (fds w)(f := None)\<rparr>"

text \<open>\<^verbatim>\<open>os.Remove(p)\<close>: the error, if any; a file the operating system refuses to remove stays.\<close>

definition os_Remove :: "world \<Rightarrow> path \<Rightarrow> string option \<times> world" where
  "os_Remove w p =
     (if p \<in> set (busy w) then (Some ''device or resource busy'', w)
      else (None, w\<lparr>entries := AList.delete p (entries w)\<rparr>))"

text \<open>\<^verbatim>\<open>os.ReadDir(d)\<close>; \<open>rerr\<close> is the error the operating system answers with, if any.\<close>

definition os_ReadDir :: "world \<Rightarrow> string \<Rightarrow> string option \<Rightarrow> string + (string \<times> node) list" where
  "os_ReadDir w d rerr =
     (case rerr of
        Some e \<Rightarrow> Inl e
      | None \<Rightarrow> Inr (map (\<lambda>(p, nd). (snd p, nd)) (filter (\<lambda>(p, nd). fst p = d) (entries w))))"

section \<open>bufio.Writer\<close>

record bufio_Writer =
  wfd :: nat
  wbuf :: string
  werr :: bool

definition NewWriter :: "nat \<Rightarrow> bufio_Writer" where
  "NewWriter f = \<lparr>wfd = f, wbuf = [], werr = False\<rparr>"

text \<open>
  \<^verbatim>\<open>Flush\<close>: nothing after an earlier error or with an empty buffer; otherwise one
  write of the buffer. On an error the bytes that were written leave the buffer and the
  error stays with the writer.
\<close>

definition Flush :: "bufio_Writer \<Rightarrow> world \<Rightarrow> bufio_Writer \<times> world" where
  "Flush b w =
     (if werr b then (b, w)
      else if wbuf b = [] then (b, w)
      else (case os_Write w (wfd b) (wbuf b) of
              ((n, None), w') \<Rightarrow> (b\<lparr>wbuf := []\<rparr>, w')
            | ((n, Some e), w') \<Rightarrow> (b\<lparr>wbuf := drop n (wbuf b), werr := True\<rparr>, w')))"

text \<open>
  \<^verbatim>\<open>WriteString\<close> with the default buffer of 4096 bytes: a string that fits is only
  buffered; otherwise an empty buffer passes it straight to the file, and a partly
  filled one is topped up and flushed first.
\<close>

definition write_through :: "bufio_Writer \<Rightarrow> string \<Rightarrow> world \<Rightarrow> bufio_Writer \<times> world" where
  "write_through b s w =
     (case os_Write w (wfd b) s of
        ((n, None), w') \<Rightarrow> (b, w')
      | ((n, Some e), w') \<Rightarrow> (b\<lparr>werr := True\<rparr>, w'))"

definition WriteString :: "bufio_Writer \<Rightarrow> string \<Rightarrow> world \<Rightarrow> bufio_Writer \<times> world" where
  "WriteString b s w =
     (if werr b then (b, w)
      else if length s \<le> 4096 - length (wbuf b) then (b\<lparr>wbuf := wbuf b @ s\<rparr>, w)
      else if wbuf b = [] then write_through b s w
      else
        (let n = 4096 - length (wbuf b);
             (b1, w1) = Flush (b\<lparr>wbuf := wbuf b @ take n s\<rparr>) w;
             s1 = drop n s
         in if werr b1 then (b1, w1)
            else if length s1 \<le> 4096 then (b1\<lparr>wbuf := wbuf b1 @ s1\<rparr>, w1)
            else write_through b1 s1 w1))"

section \<open>The channel and the wait group\<close>

record chan =
  buf :: "string list"
  cap :: nat
  closed :: bool

datatype fault =
    LogInit_mkdir string
  | LogInit_open string
  | Send_on_closed_channel
  | Close_of_closed_channel
  | Nil_pointer_dereference
  | Runtime_fault

datatype 'a res = Ok 'a | Blocked | Panic fault

definition make_chan :: "nat \<Rightarrow> chan" where
  "make_chan n = \<lparr>buf = [], cap = n, closed = False\<rparr>"

definition send :: "chan \<Rightarrow> string \<Rightarrow> chan res" where
  "send c m =
     (if closed c then Panic Send_on_closed_channel
      else if length (buf c) < cap c then Ok (c\<lparr>buf := buf c @ [m]\<rparr>)
      else Blocked)"

datatype received = Got string chan | Drained | Empty

definition recv :: "chan \<Rightarrow> received" where
  "recv c =
     (case buf c of
        m # ms \<Rightarrow> Got m (c\<lparr>buf := ms\<rparr>)
      | [] \<Rightarrow> if closed c then Drained else Empty)"

definition close_chan :: "chan \<Rightarrow> chan res" where
  "close_chan c = (if closed c then Panic Close_of_closed_channel else Ok (c\<lparr>closed := True\<rparr>))"

section \<open>internalLogger\<close>

record internalLogger =
  msgChan :: chan
  wg :: int
  file' :: "nat option"
  writer :: "bufio_Writer option"
  dirPath :: string
  filePrefix :: string
  currentDate :: string
  retentionDays :: int

definition openFile ::
  "internalLogger \<Rightarrow> time \<Rightarrow> string option \<Rightarrow> world \<Rightarrow> string option \<times> internalLogger \<times> world" where
  "openFile l t oerr w =
     (let dateStr = Format_20060102 t;
          fileName = filePrefix l @ ''_'' @ dateStr @ ''.txt'';
          fullPath = Join (dirPath l) fileName
      in case os_OpenFile w fullPath oerr of
           (Inl err, w') \<Rightarrow> (Some err, l, w')
         | (Inr f, w') \<Rightarrow>
             (None, l\<lparr>file' := Some f, writer := Some (NewWriter f), currentDate := dateStr\<rparr>, w'))"

fun sweep :: "internalLogger \<Rightarrow> string \<Rightarrow> (string \<times> node) list \<Rightarrow> world \<Rightarrow> world" where
  "sweep l cutoffStr [] w = w"
| "sweep l cutoffStr ((name, nd) # files) w =
     (if nd = Dir then sweep l cutoffStr files w
      else if \<not> HasPrefix name (filePrefix l @ ''_'') \<or> \<not> HasSuffix name ''.txt''
        then sweep l cutoffStr files w
      else
        (let prefixLen = length (filePrefix l) + 1 in
         if length name < prefixLen + 8 + 4 then sweep l cutoffStr files w
         else
           (let fileDateStr = take 8 (drop prefixLen name) in
            if fileDateStr < cutoffStr
              then
                (let fullPath = Join (dirPath l) name;
                     (err, w') = os_Remove w fullPath
                 in sweep l cutoffStr files (Printf (Cleaned name) w'))
            else sweep l cutoffStr files w)))"

definition cleanOldLogs :: "internalLogger \<Rightarrow> time \<Rightarrow> string option \<Rightarrow> world \<Rightarrow> world" where
  "cleanOldLogs l now rerr w =
     (if retentionDays l \<le> 0 then w
      else
        (let cutoffStr = Format_20060102 (AddDate_days now (- retentionDays l)) in
         case os_ReadDir w (dirPath l) rerr of
           Inl err \<Rightarrow> w
         | Inr files \<Rightarrow> sweep l cutoffStr files w))"

section \<open>The worker\<close>

text \<open>
  What the worker's \<^verbatim>\<open>select\<close> can pick, or meet, in one turn of its loop:
  \<open>Recv now oerr\<close> is the channel case, taken at wall-clock \<open>now\<close>, with \<open>oerr\<close>
  the answer \<^verbatim>\<open>os.OpenFile\<close> would give at that moment; \<open>Tick\<close> is the ticker case;
  \<open>Fault\<close> is a runtime panic raised inside the loop.
\<close>

datatype select = Recv time "string option" | Tick | Fault

datatype exit = Returned | Panicked | Waiting

datatype goroutine = Running | Exited

text \<open>The line written for one message: \<^verbatim>\<open>fmt.Sprintf("[%s] %s\n", timestamp, msg)\<close>.\<close>

definition log_line :: "time \<Rightarrow> string \<Rightarrow> string" where
  "log_line now msg = ''['' @ Format_stamp now @ ''] '' @ msg @ [CHR 0x0A]"

text \<open>
  Lines 192 to 194. A nil \<^verbatim>\<open>l.writer\<close> is a nil pointer dereference: the panic is
  returned with the state it was raised in.
\<close>

definition write_msg ::
  "internalLogger \<Rightarrow> world \<Rightarrow> time \<Rightarrow> string \<Rightarrow> fault option \<times> internalLogger \<times> world" where
  "write_msg l w now msg =
     (let timestamp = Format_stamp now in
      case writer l of
        None \<Rightarrow> (Some Nil_pointer_dereference, l, w)
      | Some b \<Rightarrow>
          (let (b', w') = WriteString b (''['' @ timestamp @ ''] '' @ msg @ [CHR 0x0A]) w
           in (None, l\<lparr>writer := Some b'\<rparr>, w')))"

text \<open>\<^verbatim>\<open>if l.writer != nil { l.writer.Flush() }\<close>\<close>

definition flush_writer :: "internalLogger \<Rightarrow> world \<Rightarrow> internalLogger \<times> world" where
  "flush_writer l w =
     (case writer l of
        None \<Rightarrow> (l, w)
      | Some b \<Rightarrow> (let (b', w') = Flush b w in (l\<lparr>writer := Some b'\<rparr>, w')))"

text \<open>\<^verbatim>\<open>if l.file != nil { l.file.Close() }\<close>\<close>

definition close_file :: "internalLogger \<Rightarrow> world \<Rightarrow> world" where
  "close_file l w = (case file' l of None \<Rightarrow> w | Some f \<Rightarrow> os_Close w f)"

text \<open>Lines 175 to 177: flush the writer, close the file, forget the file.\<close>

definition retire :: "internalLogger \<Rightarrow> world \<Rightarrow> internalLogger \<times> world" where
  "retire l w =
     (let (l1, w1) = flush_writer l w;
          w2 = close_file l1 w1
      in (l1\<lparr>file' := None\<rparr>, w2))"

text \<open>The body of the channel case once a message was received (lines 168 to 194).\<close>

definition on_message ::
  "internalLogger \<Rightarrow> world \<Rightarrow> time \<Rightarrow> string option \<Rightarrow> string \<Rightarrow>
   fault option \<times> internalLogger \<times> world" where
  "on_message l w now oerr msg =
     (let today = Format_20060102 now in
      if file' l = None \<or> today \<noteq> currentDate l then
        (let (l2, w2) = retire l w in
         case openFile l2 now oerr w2 of
           (Some err, l3, w3) \<Rightarrow> (None, l3, Printf (Unsaved msg) (Printf (OpenFailed err) w3))
         | (None, l3, w3) \<Rightarrow>
             write_msg l3 ((Printf (DateChanged (currentDate l3)) w3)\<lparr>sweeps := sweeps w3 + 1\<rparr>) now msg)
      else write_msg l w now msg)"

text \<open>The ticker case (lines 196 to 199).\<close>

definition on_tick :: "internalLogger \<Rightarrow> world \<Rightarrow> internalLogger \<times> world" where
  "on_tick l w =
     (case writer l of
        None \<Rightarrow> (l, w)
      | Some b \<Rightarrow>
          if 0 < length (wbuf b) then (let (b', w') = Flush b w in (l\<lparr>writer := Some b'\<rparr>, w'))
          else (l, w))"

text \<open>
  The \<^verbatim>\<open>for { select { ... } }\<close> loop over a schedule. A channel case on an empty open
  channel is not ready and is passed over; a schedule that ends leaves the worker
  waiting in its \<^verbatim>\<open>select\<close>.
\<close>

fun worker_loop :: "internalLogger \<Rightarrow> world \<Rightarrow> select list \<Rightarrow> exit \<times> internalLogger \<times> world" where
  "worker_loop l w [] = (Waiting, l, w)"
| "worker_loop l w (Tick # es) = (let (l', w') = on_tick l w in worker_loop l' w' es)"
| "worker_loop l w (Fault # es) = (Panicked, l, w)"
| "worker_loop l w (Recv now oerr # es) =
     (case recv (msgChan l) of
        Empty \<Rightarrow> worker_loop l w es
      | Drained \<Rightarrow> (Returned, l, w)
      | Got msg c \<Rightarrow>
          (case on_message (l\<lparr>msgChan := c\<rparr>) w now oerr msg of
             (None, l', w') \<Rightarrow> worker_loop l' w' es
           | (Some f, l', w') \<Rightarrow> (Panicked, l', w')))"

text \<open>
  The deferred recovery of lines 156 to 161: flush the writer, sync the file
  (\<^verbatim>\<open>Sync\<close> changes nothing the model records).
\<close>

definition recovered :: "internalLogger \<Rightarrow> world \<Rightarrow> internalLogger \<times> world" where
  "recovered l w = flush_writer l w"

definition wg_Done :: "internalLogger \<Rightarrow> internalLogger" where
  "wg_Done l = l\<lparr>wg := wg l - 1\<rparr>"

text \<open>
  \<^verbatim>\<open>runWorker\<close>: the loop, then the deferred calls in reverse order of their
  \<^verbatim>\<open>defer\<close>: the recovery (which acts only on a panic), \<^verbatim>\<open>ticker.Stop\<close>,
  \<^verbatim>\<open>wg.Done\<close>. While the worker waits in its loop nothing deferred has run.
\<close>

definition runWorker :: "internalLogger \<Rightarrow> world \<Rightarrow> select list \<Rightarrow> goroutine \<times> internalLogger \<times> world" where
  "runWorker l w es =
     (case worker_loop l w es of
        (Waiting, l', w') \<Rightarrow> (Running, l', w')
      | (Returned, l', w') \<Rightarrow> (Exited, wg_Done l', w')
      | (Panicked, l', w') \<Rightarrow> (let (l'', w'') = recovered l' w' in (Exited, wg_Done l'', w'')))"

text \<open>The worker goroutine over a further schedule: nothing runs once it has exited.\<close>

definition worker :: "goroutine \<Rightarrow> internalLogger \<Rightarrow> world \<Rightarrow> select list \<Rightarrow> goroutine \<times> internalLogger \<times> world" where
  "worker g l w es = (case g of Exited \<Rightarrow> (Exited, l, w) | Running \<Rightarrow> runWorker l w es)"

section \<open>The factory, emit and shutdown\<close>

text \<open>
  \<^verbatim>\<open>newLogFunc\<close>. \<open>mkdirErr\<close>, \<open>rerr\<close> and \<open>oerr\<close> are the answers of
  \<^verbatim>\<open>os.MkdirAll\<close>, \<^verbatim>\<open>os.ReadDir\<close> and \<^verbatim>\<open>os.OpenFile\<close>; \<open>now0\<close> and \<open>now\<close> are the
  clock readings of the sweep and of the first open. The result is the started worker
  goroutine and the logger the two returned closures share.
\<close>

definition newLogFunc ::
  "string \<Rightarrow> string \<Rightarrow> int \<Rightarrow> string option \<Rightarrow> time \<Rightarrow> string option \<Rightarrow> time \<Rightarrow> string option \<Rightarrow>
   world \<Rightarrow> (goroutine \<times> internalLogger \<times> world) res" where
  "newLogFunc dir pfx days mkdirErr now0 rerr now oerr w =
     (case mkdirErr of
        Some err \<Rightarrow> Panic (LogInit_mkdir err)
      | None \<Rightarrow>
          (let logger = \<lparr>msgChan = make_chan 1000, wg = 0, file' = None, writer = None,
                         dirPath = dir, filePrefix = pfx, currentDate = [], retentionDays = days\<rparr>;
               w1 = cleanOldLogs logger now0 rerr w
           in case openFile logger now oerr w1 of
                (Some err, l', w') \<Rightarrow> Panic (LogInit_open err)
              | (None, l', w') \<Rightarrow>
                  Ok (Running, l'\<lparr>wg := wg l' + 1\<rparr>, Printf (Started pfx days) w')))"

text \<open>\<^verbatim>\<open>logFn\<close>, on the line \<^verbatim>\<open>fmt.Sprintf\<close> rendered.\<close>

definition logFn :: "internalLogger \<Rightarrow> string \<Rightarrow> internalLogger res" where
  "logFn l rendered =
     (case send (msgChan l) rendered of
        Ok c \<Rightarrow> Ok (l\<lparr>msgChan := c\<rparr>)
      | Blocked \<Rightarrow> Blocked
      | Panic f \<Rightarrow> Panic f)"

text \<open>
  \<^verbatim>\<open>closeFn\<close>, with the schedule \<open>es\<close> the worker runs while \<^verbatim>\<open>wg.Wait()\<close> waits:
  \<open>Blocked\<close> when the counter has not reached zero by the end of the schedule.
\<close>

definition closeFn ::
  "goroutine \<Rightarrow> internalLogger \<Rightarrow> world \<Rightarrow> select list \<Rightarrow> (goroutine \<times> internalLogger \<times> world) res" where
  "closeFn g l w es =
     (case close_chan (msgChan l) of
        Panic f \<Rightarrow> Panic f
      | Blocked \<Rightarrow> Blocked
      | Ok c \<Rightarrow>
          (let (g1, l1, w1) = worker g (l\<lparr>msgChan := c\<rparr>) w es in
           if wg l1 \<noteq> 0 then Blocked
           else
             (let (l2, w2) = flush_writer l1 w1;
                  w3 = close_file l2 w2
              in Ok (g1, l2, Printf (Stopped (filePrefix l2)) w3))))"

section \<open>Notions used in the statements\<close>

subsection \<open>Dates\<close>

text \<open>The zero-padded decimal of \<open>appendInt\<close> for a non-negative number.\<close>

definition zpad :: "nat \<Rightarrow> nat \<Rightarrow> string" where
  "zpad k n = replicate (k - length (digits n)) (CHR ''0'') @ digits n"

text \<open>Calendar order on the date part of a time.\<close>

definition date_lt :: "time \<Rightarrow> time \<Rightarrow> bool" where
  "date_lt a b =
     (year a < year b \<or> year a = year b \<and> (month a < month b \<or> month a = month b \<and> day a < day b))"

text \<open>A valid calendar date whose year prints in four digits.\<close>

definition in_range :: "time \<Rightarrow> bool" where
  "in_range t = (valid_date t \<and> 0 \<le> year t \<and> year t \<le> 9999)"

subsection \<open>The sweep's decision\<close>

text \<open>
  The tests of lines 127 to 141 under which the sweep removes the entry \<open>name\<close>:
  not a directory, the prefix and the suffix, the minimal length, and the eight bytes
  after the prefix below the cutoff.
\<close>

definition expired :: "internalLogger \<Rightarrow> string \<Rightarrow> string \<Rightarrow> node \<Rightarrow> bool" where
  "expired l cutoffStr name nd =
     (nd \<noteq> Dir \<and> HasPrefix name (filePrefix l @ ''_'') \<and> HasSuffix name ''.txt'' \<and>
      length (filePrefix l) + 1 + 8 + 4 \<le> length name \<and>
      take 8 (drop (length (filePrefix l) + 1) name) < cutoffStr)"

subsection \<open>What a file holds, and the logger's invariant\<close>

definition is_dir :: "world \<Rightarrow> path \<Rightarrow> bool" where
  "is_dir w p = (map_of (entries w) p = Some Dir)"

definition is_file :: "world \<Rightarrow> path \<Rightarrow> bool" where
  "is_file w p = (case map_of (entries w) p of Some (File b) \<Rightarrow> True | _ \<Rightarrow> False)"

text \<open>The file \<^verbatim>\<open>openFile\<close> opens at time \<open>t\<close>, and the file named after \<open>currentDate\<close>.\<close>

definition target :: "internalLogger \<Rightarrow> time \<Rightarrow> path" where
  "target l t = Join (dirPath l) (filePrefix l @ ''_'' @ Format_20060102 t @ ''.txt'')"

definition current_path :: "internalLogger \<Rightarrow> path" where
  "current_path l = Join (dirPath l) (filePrefix l @ ''_'' @ currentDate l @ ''.txt'')"

text \<open>
  The bytes the writer has accepted for a file and not yet flushed, and the file as it
  reads once they are: its bytes on disk followed by the buffered ones.
\<close>

definition buffered :: "internalLogger \<Rightarrow> string" where
  "buffered l = (case writer l of None \<Rightarrow> [] | Some b \<Rightarrow> wbuf b)"

definition pending :: "internalLogger \<Rightarrow> world \<Rightarrow> path \<Rightarrow> string" where
  "pending l w p =
     (case writer l of
        None \<Rightarrow> []
      | Some b \<Rightarrow> if fds w (wfd b) = Some p then wbuf b else [])"

definition logical :: "internalLogger \<Rightarrow> world \<Rightarrow> path \<Rightarrow> string" where
  "logical l w p = contents w p @ pending l w p"

text \<open>
  The invariant of the logger between two turns of the worker: a file is open only
  together with a writer on its descriptor, the descriptor is open on the file named
  after \<open>currentDate\<close>, the writer has met no write error, and without a file nothing
  is buffered. \<^verbatim>\<open>newLogFunc\<close> establishes it and every turn of the loop keeps it.
\<close>

definition consistent :: "internalLogger \<Rightarrow> world \<Rightarrow> bool" where
  "consistent l w =
     (case writer l of
        None \<Rightarrow> file' l = None
      | Some b \<Rightarrow>
          \<not> werr b \<and>
          (case file' l of
             None \<Rightarrow> wbuf b = []
           | Some f \<Rightarrow> wfd b = f \<and> fds w f = Some (current_path l)))"

text \<open>
  What the logger does not check and its writes depend on: the device fails no write
  to come, and the file the logger has open is still in the directory under its name (nobody
  removed it while it was open). The source drops the result of every
  \<^verbatim>\<open>WriteString\<close> and \<^verbatim>\<open>Flush\<close>, so that without this bytes are lost unnoticed.
\<close>

definition healthy :: "internalLogger \<Rightarrow> world \<Rightarrow> bool" where
  "healthy l w = (replies w = [] \<and> (file' l = None \<or> is_file w (current_path l)))"

text \<open>The condition of line 173, and the error, if any, the open of line 180 meets.\<close>

definition needs_open :: "internalLogger \<Rightarrow> time \<Rightarrow> bool" where
  "needs_open l now = (file' l = None \<or> Format_20060102 now \<noteq> currentDate l)"

definition open_fails :: "internalLogger \<Rightarrow> world \<Rightarrow> time \<Rightarrow> string option \<Rightarrow> string option" where
  "open_fails l w now oerr =
     (case oerr of
        Some e \<Rightarrow> Some e
      | None \<Rightarrow> if is_dir w (target l now) then Some ''is a directory'' else None)"

text \<open>
  The parts of the world no write changes, whatever its outcome; those a write that
  succeeds leaves alone; and the fields no turn of the loop assigns.
\<close>

definition same_desk :: "world \<Rightarrow> world \<Rightarrow> bool" where
  "same_desk w w' =
     (fds w' = fds w \<and> nextfd w' = nextfd w \<and> console w' = console w \<and> opens w' = opens w \<and>
      sweeps w' = sweeps w \<and> busy w' = busy w)"

definition same_env :: "world \<Rightarrow> world \<Rightarrow> bool" where
  "same_env w w' =
     (fds w' = fds w \<and> nextfd w' = nextfd w \<and> console w' = console w \<and> opens w' = opens w \<and>
      sweeps w' = sweeps w \<and> replies w' = replies w \<and> busy w' = busy w)"

definition static :: "internalLogger \<Rightarrow> internalLogger \<Rightarrow> bool" where
  "static l l' =
     (dirPath l' = dirPath l \<and> filePrefix l' = filePrefix l \<and> msgChan l' = msgChan l \<and>
      wg l' = wg l \<and> retentionDays l' = retentionDays l)"

subsection \<open>Schedules\<close>


text \<open>The lines of the messages, each paired with the time it was received at, that go to file \<open>p\<close>.\<close>

definition written :: "internalLogger \<Rightarrow> path \<Rightarrow> (time \<times> string) list \<Rightarrow> string" where
  "written l p xs =
     concat (map (\<lambda>(now, msg). log_line now msg) (filter (\<lambda>(now, msg). target l now = p) xs))"

text \<open>A schedule without a fault; and one in which, moreover, no open of the stream's file fails.\<close>

fun fault_free :: "select list \<Rightarrow> bool" where
  "fault_free [] = True"
| "fault_free (Fault # es) = False"
| "fault_free (e # es) = fault_free es"

fun calm :: "internalLogger \<Rightarrow> world \<Rightarrow> select list \<Rightarrow> bool" where
  "calm l w [] = True"
| "calm l w (Recv now oerr # es) = (open_fails l w now oerr = None \<and> calm l w es)"
| "calm l w (Tick # es) = calm l w es"
| "calm l w (Fault # es) = False"

subsection \<open>What becomes of a queued message\<close>

text \<open>The date of the file the logger has open, if any.\<close>

definition open_date :: "internalLogger \<Rightarrow> string option" where
  "open_date l = (if file' l = None then None else Some (currentDate l))"

text \<open>
  A message the worker takes goes to the file that is open, or to a file opened for it,
  or, when that open fails, to no file. Which of these depends on the date \<open>cur\<close> of the
  open file, the clock, and the answer \<open>ofl now oerr\<close> an open gets at that moment; the
  date of the open file afterwards follows.
\<close>

datatype fate = Same_file | New_file | No_file string

definition fate_of ::
  "(time \<Rightarrow> string option \<Rightarrow> string option) \<Rightarrow> string option \<Rightarrow> time \<Rightarrow> string option \<Rightarrow> fate" where
  "fate_of ofl cur now oerr =
     (if cur = Some (Format_20060102 now) then Same_file
      else case ofl now oerr of None \<Rightarrow> New_file | Some e \<Rightarrow> No_file e)"

definition date_after :: "string option \<Rightarrow> time \<Rightarrow> fate \<Rightarrow> string option" where
  "date_after cur now f =
     (case f of Same_file \<Rightarrow> cur | New_file \<Rightarrow> Some (Format_20060102 now) | No_file e \<Rightarrow> None)"

text \<open>
  The messages a schedule delivers to the worker, read off the schedule and the queue
  alone: at each channel case reached while the queue is not empty the worker takes one
  message, the head of the queue; a fault ends the run. Each is listed once, with the
  clock reading it was received at and its fate.
\<close>

fun fates ::
  "(time \<Rightarrow> string option \<Rightarrow> string option) \<Rightarrow> string option \<Rightarrow> select list \<Rightarrow> string list \<Rightarrow>
   (time \<times> string \<times> fate) list" where
  "fates ofl cur [] q = []"
| "fates ofl cur (Tick # es) q = fates ofl cur es q"
| "fates ofl cur (Fault # es) q = []"
| "fates ofl cur (Recv now oerr # es) [] = []"
| "fates ofl cur (Recv now oerr # es) (m # q) =
     (now, m, fate_of ofl cur now oerr) #
     fates ofl (date_after cur now (fate_of ofl cur now oerr)) es q"

text \<open>The messages that went to a file, and what the console is told of a message.\<close>

fun kept :: "fate \<Rightarrow> bool" where
  "kept (No_file e) = False"
| "kept Same_file = True"
| "kept New_file = True"

definition saved :: "(time \<times> string \<times> fate) list \<Rightarrow> (time \<times> string) list" where
  "saved fs = map (\<lambda>(now, msg, f). (now, msg)) (filter (\<lambda>(now, msg, f). kept f) fs)"


subsection \<open>Runs of the channel\<close>



text \<open>The struct literal of lines 60 to 65.\<close>

definition init_logger :: "string \<Rightarrow> string \<Rightarrow> int \<Rightarrow> internalLogger" where
  "init_logger dir pfx days =
     \<lparr>msgChan = make_chan 1000, wg = 0, file' = None, writer = None,
      dirPath = dir, filePrefix = pfx, currentDate = [], retentionDays = days\<rparr>"

subsection \<open>Concrete inputs\<close>

text \<open>
  Clock readings on 2025-04-15 and just after the next midnight; the logger
  \<^verbatim>\<open>AppLog\<close> of directory \<^verbatim>\<open>log\<close> before its first open, a directory for the sweep,
  and the stream as \<^verbatim>\<open>newLogFunc\<close> leaves it on an empty directory, with a given queue.
\<close>

definition ex_now :: time where
  "ex_now = \<lparr>year = 2025, month = 4, day = 15, hour = 9, minute = 5, second = 7\<rparr>"

definition ex_later :: time where
  "ex_later = \<lparr>year = 2025, month = 4, day = 15, hour = 9, minute = 5, second = 9\<rparr>"

definition ex_next_day :: time where
  "ex_next_day = \<lparr>year = 2025, month = 4, day = 16, hour = 0, minute = 0, second = 2\<rparr>"

definition ex_logger :: "int \<Rightarrow> internalLogger" where
  "ex_logger days = init_logger ''log'' ''AppLog'' days"

definition ex_dir :: world where
  "ex_dir =
     \<lparr>entries =
        [((''log'', ''AppLog_20250315.txt''), File ''old''),
         ((''log'', ''AppLog_20250317.txt''), File ''new''),
         ((''log'', ''AppLog_-archive-.txt''), File ''notes''),
         ((''log'', ''AppLog_19990101_keep.txt''), File ''kept''),
         ((''log'', ''AppLog_20240101.txt''), Dir),
         ((''log'', ''CommLog_20200101.txt''), File ''other'')],
      fds = Map.empty, nextfd = 3, console = [], opens = [], sweeps = 0, replies = [], busy = []\<rparr>"

definition ex_mixed :: world where
  "ex_mixed =
     \<lparr>entries =
        [((''log'', ''AppLog_20250315.txt''), File ''old''),
         ((''log'', ''AppLog_2025-04-14.txt''), File ''yesterday''),
         ((''log'', ''AppLog_20250317.txt''), File ''new'')],
      fds = Map.empty, nextfd = 3, console = [], opens = [], sweeps = 0, replies = [], busy = []\<rparr>"

definition ex_empty :: world where
  "ex_empty = \<lparr>entries = [], fds = Map.empty, nextfd = 3, console = [], opens = [], sweeps = 0, replies = [], busy = []\<rparr>"

definition ex_start :: internalLogger where
  "ex_start =
     \<lparr>msgChan = make_chan 1000, wg = 1, file' = Some 3, writer = Some (NewWriter 3),
      dirPath = ''log'', filePrefix = ''AppLog'', currentDate = ''20250415'', retentionDays = 30\<rparr>"

definition ex_disk :: world where
  "ex_disk =
     \<lparr>entries = [((''log'', ''AppLog_20250415.txt''), File [])],
      fds = [3 \<mapsto> (''log'', ''AppLog_20250415.txt'')], nextfd = 4,
      console = [Started ''AppLog'' 30], opens = [(''log'', ''AppLog_20250415.txt'')], sweeps = 0, replies = [], busy = []\<rparr>"

definition ex_queued :: "string list \<Rightarrow> internalLogger" where
  "ex_queued msgs = ex_start\<lparr>msgChan := (msgChan ex_start)\<lparr>buf := msgs\<rparr>\<rparr>"

definition ex_closing :: "string list \<Rightarrow> internalLogger" where
  "ex_closing msgs = (ex_queued msgs)\<lparr>msgChan := (msgChan (ex_queued msgs))\<lparr>closed := True\<rparr>\<rparr>"




definition cx_sched :: "select list" where
  "cx_sched = [Recv ex_next_day (Some ''disk full''), Recv ex_next_day None]"


section \<open>Dates and their fixed-width layout\<close>

lemma digit_less: "a < 10 \<Longrightarrow> b < 10 \<Longrightarrow> (digit a < digit b) = (a < b)"
  by (simp add: digit_def less_char_def)

lemma digit_eq: "a < 10 \<Longrightarrow> b < 10 \<Longrightarrow> (digit a = digit b) = (a = b)"
proof
  assume a: "a < 10" "b < 10" and e: "digit a = digit b"
  then have "of_char (digit a) = (of_char (digit b) :: nat)" by simp
  with a show "a = b" by (simp add: digit_def)
qed simp

lemma digit_0: "digit 0 = CHR ''0''"
  by (simp add: digit_def) code_simp

lemma append_less_same_length:
  "length xs = length ys \<Longrightarrow> (xs @ u < ys @ v) = (xs < ys \<or> xs = ys \<and> u < (v :: 'a :: linorder list))"
  by (induction xs ys rule: list_induct2) auto

lemma append_eq_same_length:
  "length xs = length ys \<Longrightarrow> (xs @ u = ys @ v) = (xs = ys \<and> u = v)"
  by simp

lemma div_mod_less10:
  "(a div 10 < b div 10 \<or> a div 10 = b div 10 \<and> a mod 10 < b mod 10) = (a < (b::nat))"
proof -
  have a: "a = 10 * (a div 10) + a mod 10" and b: "b = 10 * (b div 10) + b mod 10" by simp_all
  have ma: "a mod 10 < 10" and mb: "b mod 10 < 10" by simp_all
  show ?thesis using a b ma mb by linarith
qed

lemma div_mod_eq10:
  "(a div 10 = b div 10 \<and> a mod 10 = b mod 10) = (a = (b::nat))"
  by (metis div_mult_mod_eq)

lemma zpad_step: "zpad (Suc (Suc k)) n = zpad (Suc k) (n div 10) @ [digit (n mod 10)]"
proof (cases "n < 10")
  case True
  then have "digits n = [digit n]" "digits (n div 10) = [CHR ''0'']"
    by (simp_all add: digits.simps [of n] digits.simps [of 0] digit_0)
  with True show ?thesis
    by (simp add: zpad_def replicate_append_same)
next
  case False
  then have "digits n = digits (n div 10) @ [digit (n mod 10)]"
    by (simp add: digits.simps [of n])
  then show ?thesis
    by (simp add: zpad_def Suc_diff_le)
qed

lemma length_digits: "0 < k \<Longrightarrow> n < 10 ^ k \<Longrightarrow> length (digits n) \<le> k"
proof (induction k arbitrary: n)
  case 0
  then show ?case by simp
next
  case (Suc k)
  show ?case
  proof (cases "n < 10")
    case True
    then show ?thesis by (simp add: digits.simps [of n])
  next
    case False
    then have k: "0 < k" using Suc.prems by (cases k) auto
    have "n div 10 < 10 ^ k" using Suc.prems by (simp add: less_mult_imp_div_less mult.commute)
    from Suc.IH [OF k this] False show ?thesis by (simp add: digits.simps [of n])
  qed
qed

lemma length_zpad: "0 < k \<Longrightarrow> n < 10 ^ k \<Longrightarrow> length (zpad k n) = k"
  using length_digits [of k n] by (simp add: zpad_def)

lemma zpad_order:
  "0 < k \<Longrightarrow> a < 10 ^ k \<Longrightarrow> b < 10 ^ k \<Longrightarrow>
   (zpad k a < zpad k b) = (a < b) \<and> (zpad k a = zpad k b) = (a = b)"
proof (induction k arbitrary: a b)
  case 0
  then show ?case by simp
next
  case (Suc k)
  show ?case
  proof (cases k)
    case 0
    with Suc.prems have "a < 10" "b < 10" by simp_all
    then show ?thesis
      by (simp add: 0 zpad_def digits.simps [of a] digits.simps [of b] digit_less digit_eq)
  next
    case (Suc j)
    have da: "a div 10 < 10 ^ k" and db: "b div 10 < 10 ^ k"
      using Suc.prems by (simp_all add: less_mult_imp_div_less mult.commute)
    have k: "0 < k" by (simp add: Suc)
    note ih = Suc.IH [OF k da db]
    have len: "length (zpad k (a div 10)) = length (zpad k (b div 10))"
      by (simp add: length_zpad k da db)
    have m: "a mod 10 < 10" "b mod 10 < 10" by simp_all
    have "(zpad (Suc k) a < zpad (Suc k) b) =
          (zpad k (a div 10) < zpad k (b div 10) \<or>
           zpad k (a div 10) = zpad k (b div 10) \<and> digit (a mod 10) < digit (b mod 10))"
      using len by (simp add: Suc zpad_step append_less_same_length)
    also have "\<dots> = (a div 10 < b div 10 \<or> a div 10 = b div 10 \<and> a mod 10 < b mod 10)"
      using ih m by (simp add: digit_less)
    also have "\<dots> = (a < b)"
      by (rule div_mod_less10)
    finally have less: "(zpad (Suc k) a < zpad (Suc k) b) = (a < b)" .
    have "(zpad (Suc k) a = zpad (Suc k) b) =
          (zpad k (a div 10) = zpad k (b div 10) \<and> digit (a mod 10) = digit (b mod 10))"
      using len by (simp add: Suc zpad_step)
    also have "\<dots> = (a div 10 = b div 10 \<and> a mod 10 = b mod 10)"
      using ih m by (simp add: digit_eq)
    also have "\<dots> = (a = b)"
      by (rule div_mod_eq10)
    finally have eq: "(zpad (Suc k) a = zpad (Suc k) b) = (a = b)" .
    from less eq show ?thesis by simp
  qed
qed

lemma appendInt_zpad: "0 \<le> x \<Longrightarrow> appendInt x k = zpad k (nat x)"
  by (simp add: appendInt_def zpad_def)

lemma daysIn_bounds: "1 \<le> daysIn m y \<and> daysIn m y \<le> 31"
  by (simp add: daysIn_def)

lemma Format_20060102_zpad:
  "0 \<le> year t \<Longrightarrow> Format_20060102 t = zpad 4 (nat (year t)) @ zpad 2 (month t) @ zpad 2 (day t)"
  by (simp add: Format_20060102_def appendInt_zpad)

lemma zpad_less: "0 < k \<Longrightarrow> a < 10 ^ k \<Longrightarrow> b < 10 ^ k \<Longrightarrow> (zpad k a < zpad k b) = (a < b)"
  using zpad_order by blast

lemma zpad_eq: "0 < k \<Longrightarrow> a < 10 ^ k \<Longrightarrow> b < 10 ^ k \<Longrightarrow> (zpad k a = zpad k b) = (a = b)"
  using zpad_order by blast

lemma Format_20060102_less:
  assumes "in_range a" "in_range b"
  shows "(Format_20060102 a < Format_20060102 b) = date_lt a b"
proof -
  have ya: "nat (year a) < 10 ^ 4" and yb: "nat (year b) < 10 ^ 4"
    using assms unfolding in_range_def by auto
  have "day a \<le> 31" "day b \<le> 31"
    using assms daysIn_bounds [of "month a" "year a"] daysIn_bounds [of "month b" "year b"]
    unfolding in_range_def valid_date_def by auto
  then have da: "day a < 10 ^ 2" and db: "day b < 10 ^ 2" by simp_all
  have ma: "month a < 10 ^ 2" and mb: "month b < 10 ^ 2"
    using assms unfolding in_range_def valid_date_def by auto
  have y: "(nat (year a) < nat (year b)) = (year a < year b)"
    "(nat (year a) = nat (year b)) = (year a = year b)"
    using assms unfolding in_range_def by auto
  have l4: "length (zpad 4 (nat (year a))) = length (zpad 4 (nat (year b)))"
    using ya yb by (simp only: length_zpad zero_less_numeral)
  have l2: "length (zpad 2 (month a)) = length (zpad 2 (month b))"
    using ma mb by (simp only: length_zpad zero_less_numeral)
  have fa: "Format_20060102 a = zpad 4 (nat (year a)) @ zpad 2 (month a) @ zpad 2 (day a)"
    and fb: "Format_20060102 b = zpad 4 (nat (year b)) @ zpad 2 (month b) @ zpad 2 (day b)"
    using assms by (simp_all add: Format_20060102_zpad in_range_def)
  have "(Format_20060102 a < Format_20060102 b) =
        (zpad 4 (nat (year a)) < zpad 4 (nat (year b)) \<or>
         zpad 4 (nat (year a)) = zpad 4 (nat (year b)) \<and>
         (zpad 2 (month a) < zpad 2 (month b) \<or>
          zpad 2 (month a) = zpad 2 (month b) \<and> zpad 2 (day a) < zpad 2 (day b)))"
    by (simp only: fa fb append_less_same_length [OF l4] append_less_same_length [OF l2])
  also have "\<dots> = date_lt a b"
    by (simp only: zpad_less [OF _ ya yb] zpad_eq [OF _ ya yb] zpad_less [OF _ ma mb]
        zpad_eq [OF _ ma mb] zpad_less [OF _ da db] zero_less_numeral y date_lt_def)
  finally show ?thesis .
qed

lemma length_Format_20060102: "in_range t \<Longrightarrow> length (Format_20060102 t) = 8"
proof -
  assume r: "in_range t"
  then have "nat (year t) < 10 ^ 4" "month t < 10 ^ 2" "day t < 10 ^ 2"
    using daysIn_bounds [of "month t" "year t"] unfolding in_range_def valid_date_def by auto
  with r show ?thesis by (simp add: Format_20060102_zpad in_range_def length_zpad)
qed

lemma prevDay_lt: "date_lt (prevDay t) t"
  by (simp add: prevDay_def date_lt_def)

lemma prevDay_valid: "valid_date t \<Longrightarrow> valid_date (prevDay t)"
proof -
  assume v: "valid_date t"
  consider "1 < day t" | "\<not> 1 < day t" "1 < month t" | "\<not> 1 < day t" "\<not> 1 < month t"
    by blast
  then show ?thesis
  proof cases
    case 1
    with v show ?thesis unfolding prevDay_def valid_date_def by auto
  next
    case 2
    with v daysIn_bounds [of "month t - 1" "year t"] show ?thesis
      unfolding prevDay_def valid_date_def by auto
  next
    case 3
    then show ?thesis by (simp add: prevDay_def valid_date_def daysIn_def)
  qed
qed

lemma prevDay_year: "year (prevDay t) \<le> year t"
  by (simp add: prevDay_def)

lemma prevDay_pow_valid: "valid_date t \<Longrightarrow> valid_date ((prevDay ^^ n) t)"
  by (induction n) (simp_all add: prevDay_valid)

lemma prevDay_pow_year: "year ((prevDay ^^ n) t) \<le> year t"
proof (induction n)
  case 0
  show ?case by simp
next
  case (Suc n)
  have "year ((prevDay ^^ Suc n) t) \<le> year ((prevDay ^^ n) t)"
    by (simp add: prevDay_year)
  with Suc show ?case by linarith
qed

lemma prevDay_pow_year_mono: "m \<le> n \<Longrightarrow> year ((prevDay ^^ n) t) \<le> year ((prevDay ^^ m) t)"
proof -
  assume "m \<le> n"
  then obtain k where "n = k + m" by (metis le_add_diff_inverse2)
  then show ?thesis by (simp add: funpow_add prevDay_pow_year)
qed

section \<open>The retention sweep\<close>

lemma sweep_step:
  "sweep l c ((n, nd) # files) w =
     (if expired l c n nd
      then sweep l c files (Printf (Cleaned n) (snd (os_Remove w (Join (dirPath l) n))))
      else sweep l c files w)"
  by (auto simp add: expired_def Let_def not_less split: prod.splits)

lemma os_Remove_done:
  "busy w = [] \<Longrightarrow> os_Remove w p = (None, w\<lparr>entries := AList.delete p (entries w)\<rparr>)"
  by (simp add: os_Remove_def)

lemma sweep_entries:
  "busy w = [] \<Longrightarrow> entries (sweep l c files w) =
     filter (\<lambda>(p, nd). \<not> (\<exists>(n, nd') \<in> set files. expired l c n nd' \<and> p = Join (dirPath l) n)) (entries w)"
proof (induction files arbitrary: w)
  case Nil
  show ?case by simp
next
  case (Cons f files)
  obtain n nd where f: "f = (n, nd)" by (cases f)
  note bw = \<open>busy w = []\<close>
  show ?case
  proof (cases "expired l c n nd")
    case True
    have "entries (sweep l c (f # files) w) =
          filter (\<lambda>(p, nd). \<not> (\<exists>(n, nd') \<in> set files. expired l c n nd' \<and> p = Join (dirPath l) n))
            (filter (\<lambda>(k, _). Join (dirPath l) n \<noteq> k) (entries w))"
      unfolding f sweep_step using True bw
      by (simp add: Cons.IH os_Remove_done Printf_def AList.delete_eq)
    also have "\<dots> = filter (\<lambda>(p, nd). \<not> (\<exists>(n, nd') \<in> set (f # files). expired l c n nd' \<and> p = Join (dirPath l) n)) (entries w)"
      unfolding filter_filter using True
      by (intro filter_cong refl) (auto simp add: f)
    finally show ?thesis .
  next
    case False
    have "entries (sweep l c (f # files) w) =
          filter (\<lambda>(p, nd). \<not> (\<exists>(n, nd') \<in> set files. expired l c n nd' \<and> p = Join (dirPath l) n)) (entries w)"
      unfolding f sweep_step using False bw by (simp add: Cons.IH)
    also have "\<dots> = filter (\<lambda>(p, nd). \<not> (\<exists>(n, nd') \<in> set (f # files). expired l c n nd' \<and> p = Join (dirPath l) n)) (entries w)"
      using False by (intro filter_cong refl) (auto simp add: f)
    finally show ?thesis .
  qed
qed

lemma cleanOldLogs_entries:
  assumes "0 < retentionDays l" "distinct (map fst (entries w))" "busy w = []"
  shows "entries (cleanOldLogs l now None w) =
     filter (\<lambda>(p, nd). \<not> (fst p = dirPath l \<and>
                expired l (Format_20060102 (AddDate_days now (- retentionDays l))) (snd p) nd))
       (entries w)"
proof -
  let ?c = "Format_20060102 (AddDate_days now (- retentionDays l))"
  let ?files = "map (\<lambda>(p, nd). (snd p, nd)) (filter (\<lambda>(p, nd). fst p = dirPath l) (entries w))"
  have "entries (cleanOldLogs l now None w) = entries (sweep l ?c ?files w)"
    using assms(1) by (simp add: cleanOldLogs_def os_ReadDir_def Let_def)
  also have "\<dots> = filter (\<lambda>(p, nd). \<not> (\<exists>(n, nd') \<in> set ?files. expired l ?c n nd' \<and> p = Join (dirPath l) n)) (entries w)"
    using assms(3) by (rule sweep_entries)
  also have "\<dots> = filter (\<lambda>(p, nd). \<not> (fst p = dirPath l \<and> expired l ?c (snd p) nd)) (entries w)"
  proof (intro filter_cong refl)
    fix x assume x: "x \<in> set (entries w)"
    obtain p nd where xp: "x = (p, nd)" by (cases x)
    have uniq: "\<And>nd'. (p, nd') \<in> set (entries w) \<Longrightarrow> nd' = nd"
      using assms(2) x xp by (meson eq_key_imp_eq_value)
    have "(\<exists>(n, nd') \<in> set ?files. expired l ?c n nd' \<and> p = Join (dirPath l) n) =
          (fst p = dirPath l \<and> expired l ?c (snd p) nd)"
    proof
      assume "\<exists>(n, nd') \<in> set ?files. expired l ?c n nd' \<and> p = Join (dirPath l) n"
      then obtain n nd' where m: "(n, nd') \<in> set ?files" "expired l ?c n nd'" "p = Join (dirPath l) n"
        by blast
      from m(1) obtain q where q: "(q, nd') \<in> set (entries w)" "fst q = dirPath l" "snd q = n"
        by auto
      then have "q = p" using m(3) by (cases q) (simp add: Join_def)
      with q uniq have "nd' = nd" by blast
      with m show "fst p = dirPath l \<and> expired l ?c (snd p) nd" by (simp add: Join_def)
    next
      assume a: "fst p = dirPath l \<and> expired l ?c (snd p) nd"
      then have "(snd p, nd) \<in> set ?files" using x xp by force
      moreover have "p = Join (dirPath l) (snd p)" using a by (cases p) (simp add: Join_def)
      ultimately show "\<exists>(n, nd') \<in> set ?files. expired l ?c n nd' \<and> p = Join (dirPath l) n"
        using a by blast
    qed
    then show "(case x of (p, nd) \<Rightarrow> \<not> (\<exists>(n, nd') \<in> set ?files. expired l ?c n nd' \<and> p = Join (dirPath l) n)) =
               (case x of (p, nd) \<Rightarrow> \<not> (fst p = dirPath l \<and> expired l ?c (snd p) nd))"
      unfolding xp prod.case by (rule arg_cong)
  qed
  finally show ?thesis .
qed

lemma AddDate_days_back: "0 \<le> k \<Longrightarrow> AddDate_days t (- k) = (prevDay ^^ nat k) t"
  by (cases "k = 0") (simp_all add: AddDate_days_def)

lemma expired_shaped:
  "length d = 8 \<Longrightarrow> expired l c (filePrefix l @ ''_'' @ d @ ''.txt'') (File b) = (d < c)"
  by (simp add: expired_def HasPrefix_def HasSuffix_def)

lemma in_range_back:
  assumes "valid_date now" "year now \<le> 9999" "0 \<le> year ((prevDay ^^ n) now)" "m \<le> n"
  shows "in_range ((prevDay ^^ m) now)"
proof -
  have "year ((prevDay ^^ n) now) \<le> year ((prevDay ^^ m) now)"
    using assms(4) by (rule prevDay_pow_year_mono)
  moreover have "year ((prevDay ^^ m) now) \<le> year now"
    by (rule prevDay_pow_year)
  ultimately show ?thesis
    using assms(1-3) by (simp add: in_range_def prevDay_pow_valid)
qed

lemma cutoff_brackets:
  assumes r: "0 < r" and v: "valid_date now" and hi: "year now \<le> 9999"
    and lo: "0 \<le> year (AddDate_days now (- (r + 1)))"
  shows "length (Format_20060102 (AddDate_days now (- (r + 1)))) = 8"
    and "length (Format_20060102 (AddDate_days now (- (r - 1)))) = 8"
    and "Format_20060102 (AddDate_days now (- (r + 1))) < Format_20060102 (AddDate_days now (- r))"
    and "\<not> Format_20060102 (AddDate_days now (- (r - 1))) < Format_20060102 (AddDate_days now (- r))"
proof -
  define n where "n = nat r"
  define c where "c = (prevDay ^^ (n - 1)) now"
  have n: "0 < n" using r by (simp add: n_def)
  have n1: "nat (r + 1) = Suc n" and nm1: "nat (r - 1) = n - 1"
    using r unfolding n_def by linarith+
  have pn: "(prevDay ^^ n) now = prevDay c"
    using n by (cases n) (simp_all add: c_def)
  have pn1: "(prevDay ^^ Suc n) now = prevDay (prevDay c)"
    using pn by simp
  have e1: "AddDate_days now (- (r + 1)) = prevDay (prevDay c)"
    using r AddDate_days_back [of "r + 1" now] unfolding n1 pn1 by simp
  have e0: "AddDate_days now (- r) = prevDay c"
    using r AddDate_days_back [of r now] unfolding n_def [symmetric] pn by simp
  have e2: "AddDate_days now (- (r - 1)) = c"
    using r AddDate_days_back [of "r - 1" now] unfolding nm1 c_def by simp
  have lo': "0 \<le> year ((prevDay ^^ (n + 1)) now)"
    using lo unfolding e1 using pn1 by simp
  have r2: "in_range c"
    unfolding c_def by (rule in_range_back [OF v hi lo']) simp
  have "in_range ((prevDay ^^ n) now)"
    by (rule in_range_back [OF v hi lo']) simp
  then have r0: "in_range (prevDay c)" unfolding pn .
  have "in_range ((prevDay ^^ (n + 1)) now)"
    by (rule in_range_back [OF v hi lo']) simp
  then have r1: "in_range (prevDay (prevDay c))" using pn1 by simp
  show "length (Format_20060102 (AddDate_days now (- (r + 1)))) = 8"
    unfolding e1 using r1 by (rule length_Format_20060102)
  show "length (Format_20060102 (AddDate_days now (- (r - 1)))) = 8"
    unfolding e2 using r2 by (rule length_Format_20060102)
  show "Format_20060102 (AddDate_days now (- (r + 1))) < Format_20060102 (AddDate_days now (- r))"
    unfolding e1 e0 by (simp add: Format_20060102_less [OF r1 r0] prevDay_lt)
  have "Format_20060102 (prevDay c) < Format_20060102 c"
    by (simp add: Format_20060102_less [OF r0 r2] prevDay_lt)
  then show "\<not> Format_20060102 (AddDate_days now (- (r - 1))) < Format_20060102 (AddDate_days now (- r))"
    unfolding e2 e0 by simp
qed

text \<open>
  What the sweep removes. With \<open>retentionDays \<le> 0\<close> it changes nothing. Otherwise, when
  the directory can be listed and no removal is refused, it removes exactly the entries
  of the stream's directory that pass the tests of lines 127 to 141 (\<open>expired\<close>); a file
  named \<open>{filePrefix}_{d}.txt\<close> with eight bytes \<open>d\<close> is removed if and only if
  \<open>d < cutoff\<close>, where \<open>cutoff = Format (today - retentionDays)\<close>; in particular the file
  dated \<open>today - (N + 1)\<close> is removed and the file dated \<open>today - (N - 1)\<close> is kept
  (dates whose years print in four digits).
\<close>

lemma retention_sweep_removes:
  "(retentionDays l \<le> 0 \<longrightarrow> cleanOldLogs l now rerr w = w) \<and>
   (0 < retentionDays l \<and> distinct (map fst (entries w)) \<and> busy w = [] \<longrightarrow>
      entries (cleanOldLogs l now None w) =
        filter (\<lambda>(p, nd). \<not> (fst p = dirPath l \<and>
                   expired l (Format_20060102 (AddDate_days now (- retentionDays l))) (snd p) nd))
          (entries w)) \<and>
   (0 < retentionDays l \<and> distinct (map fst (entries w)) \<and> busy w = [] \<longrightarrow>
      (\<forall>d b. length d = 8 \<and>
             (Join (dirPath l) (filePrefix l @ ''_'' @ d @ ''.txt''), File b) \<in> set (entries w) \<longrightarrow>
             ((Join (dirPath l) (filePrefix l @ ''_'' @ d @ ''.txt''), File b)
                \<in> set (entries (cleanOldLogs l now None w))) =
             (\<not> d < Format_20060102 (AddDate_days now (- retentionDays l))))) \<and>
   (0 < retentionDays l \<and> distinct (map fst (entries w)) \<and> busy w = [] \<and> valid_date now \<and> year now \<le> 9999 \<and>
    0 \<le> year (AddDate_days now (- (retentionDays l + 1))) \<longrightarrow>
      (\<forall>b. (Join (dirPath l)
               (filePrefix l @ ''_'' @ Format_20060102 (AddDate_days now (- (retentionDays l + 1))) @ ''.txt''),
             File b) \<notin> set (entries (cleanOldLogs l now None w))) \<and>
      (\<forall>b. (Join (dirPath l)
               (filePrefix l @ ''_'' @ Format_20060102 (AddDate_days now (- (retentionDays l - 1))) @ ''.txt''),
             File b) \<in> set (entries w) \<longrightarrow>
           (Join (dirPath l)
               (filePrefix l @ ''_'' @ Format_20060102 (AddDate_days now (- (retentionDays l - 1))) @ ''.txt''),
             File b) \<in> set (entries (cleanOldLogs l now None w))))"
proof (intro conjI impI allI)
  assume "retentionDays l \<le> 0"
  then show "cleanOldLogs l now rerr w = w" by (simp add: cleanOldLogs_def)
next
  assume "0 < retentionDays l \<and> distinct (map fst (entries w)) \<and> busy w = []"
  then show "entries (cleanOldLogs l now None w) =
        filter (\<lambda>(p, nd). \<not> (fst p = dirPath l \<and>
                   expired l (Format_20060102 (AddDate_days now (- retentionDays l))) (snd p) nd))
          (entries w)"
    by (simp add: cleanOldLogs_entries)
next
  fix d b
  assume a: "0 < retentionDays l \<and> distinct (map fst (entries w)) \<and> busy w = []"
  define nm where "nm = filePrefix l @ ''_'' @ d @ ''.txt''"
  assume "length d = 8 \<and>
             (Join (dirPath l) (filePrefix l @ ''_'' @ d @ ''.txt''), File b) \<in> set (entries w)"
  then have d: "length d = 8" and m: "(Join (dirPath l) nm, File b) \<in> set (entries w)"
    unfolding nm_def by simp_all
  have "expired l (Format_20060102 (AddDate_days now (- retentionDays l))) nm (File b) =
        (d < Format_20060102 (AddDate_days now (- retentionDays l)))"
    unfolding nm_def using d by (rule expired_shaped)
  then have "((Join (dirPath l) nm, File b) \<in> set (entries (cleanOldLogs l now None w))) =
             (\<not> d < Format_20060102 (AddDate_days now (- retentionDays l)))"
    using a m by (simp add: cleanOldLogs_entries Join_def)
  then show "((Join (dirPath l) (filePrefix l @ ''_'' @ d @ ''.txt''), File b)
                \<in> set (entries (cleanOldLogs l now None w))) =
             (\<not> d < Format_20060102 (AddDate_days now (- retentionDays l)))"
    unfolding nm_def .
next
  fix b
  assume a: "0 < retentionDays l \<and> distinct (map fst (entries w)) \<and> busy w = [] \<and> valid_date now \<and> year now \<le> 9999 \<and>
    0 \<le> year (AddDate_days now (- (retentionDays l + 1)))"
  define d where "d = Format_20060102 (AddDate_days now (- (retentionDays l + 1)))"
  define nm where "nm = filePrefix l @ ''_'' @ d @ ''.txt''"
  from a have "length d = 8" "d < Format_20060102 (AddDate_days now (- retentionDays l))"
    unfolding d_def using cutoff_brackets [of "retentionDays l" now] by simp_all
  then have "expired l (Format_20060102 (AddDate_days now (- retentionDays l))) nm (File b)"
    unfolding nm_def by (simp only: expired_shaped)
  then have "(Join (dirPath l) nm, File b) \<notin> set (entries (cleanOldLogs l now None w))"
    using a by (simp add: cleanOldLogs_entries Join_def)
  then show "(Join (dirPath l)
               (filePrefix l @ ''_'' @ Format_20060102 (AddDate_days now (- (retentionDays l + 1))) @ ''.txt''),
             File b) \<notin> set (entries (cleanOldLogs l now None w))"
    unfolding nm_def d_def .
next
  fix b
  assume a: "0 < retentionDays l \<and> distinct (map fst (entries w)) \<and> busy w = [] \<and> valid_date now \<and> year now \<le> 9999 \<and>
    0 \<le> year (AddDate_days now (- (retentionDays l + 1)))"
  define d where "d = Format_20060102 (AddDate_days now (- (retentionDays l - 1)))"
  define nm where "nm = filePrefix l @ ''_'' @ d @ ''.txt''"
  assume "(Join (dirPath l)
               (filePrefix l @ ''_'' @ Format_20060102 (AddDate_days now (- (retentionDays l - 1))) @ ''.txt''),
             File b) \<in> set (entries w)"
  then have m: "(Join (dirPath l) nm, File b) \<in> set (entries w)"
    unfolding nm_def d_def .
  from a have "length d = 8" "\<not> d < Format_20060102 (AddDate_days now (- retentionDays l))"
    unfolding d_def using cutoff_brackets [of "retentionDays l" now] by simp_all
  then have "\<not> expired l (Format_20060102 (AddDate_days now (- retentionDays l))) nm (File b)"
    unfolding nm_def by (simp only: expired_shaped not_False_eq_True)
  then have "(Join (dirPath l) nm, File b) \<in> set (entries (cleanOldLogs l now None w))"
    using a m by (simp add: cleanOldLogs_entries Join_def)
  then show "(Join (dirPath l)
               (filePrefix l @ ''_'' @ Format_20060102 (AddDate_days now (- (retentionDays l - 1))) @ ''.txt''),
             File b) \<in> set (entries (cleanOldLogs l now None w))"
    unfolding nm_def d_def .
qed

lemma digit_chars:
  "digit 0 = CHR ''0''" "digit 1 = CHR ''1''" "digit 2 = CHR ''2''" "digit 3 = CHR ''3''"
  "digit 4 = CHR ''4''" "digit 5 = CHR ''5''" "digit 6 = CHR ''6''" "digit 7 = CHR ''7''"
  "digit 8 = CHR ''8''" "digit 9 = CHR ''9''" "digit (Suc 0) = CHR ''1''"
  by code_simp+

lemma ex_back31:
  "AddDate_days ex_now (- 31) = \<lparr>year = 2025, month = 3, day = 15, hour = 9, minute = 5, second = 7\<rparr>"
  by (simp add: AddDate_days_def eval_nat_numeral prevDay_def ex_now_def daysIn_def isLeap_def)

lemma ex_back30:
  "AddDate_days ex_now (- 30) = \<lparr>year = 2025, month = 3, day = 16, hour = 9, minute = 5, second = 7\<rparr>"
  by (simp add: AddDate_days_def eval_nat_numeral prevDay_def ex_now_def daysIn_def isLeap_def)

lemma ex_back29:
  "AddDate_days ex_now (- 29) = \<lparr>year = 2025, month = 3, day = 17, hour = 9, minute = 5, second = 7\<rparr>"
  by (simp add: AddDate_days_def eval_nat_numeral prevDay_def ex_now_def daysIn_def isLeap_def)

lemma ex_formats:
  "Format_20060102 \<lparr>year = 2025, month = 3, day = 15, hour = 9, minute = 5, second = 7\<rparr> = ''20250315''"
  "Format_20060102 \<lparr>year = 2025, month = 3, day = 16, hour = 9, minute = 5, second = 7\<rparr> = ''20250316''"
  "Format_20060102 \<lparr>year = 2025, month = 3, day = 17, hour = 9, minute = 5, second = 7\<rparr> = ''20250317''"
  by (simp_all add: Format_20060102_def appendInt_def digits.simps digit_chars)

lemma ex_sweep:
  "cleanOldLogs (ex_logger 30) ex_now None w =
   sweep (ex_logger 30) ''20250316''
     (map (\<lambda>(p, nd). (snd p, nd)) (filter (\<lambda>(p, nd). fst p = ''log'') (entries w))) w"
  by (simp add: cleanOldLogs_def os_ReadDir_def ex_logger_def init_logger_def ex_back30 ex_formats)

text \<open>
  Claim C3. On 2025-04-15 with \<open>retentionDays = 30\<close> the cutoff is \<^verbatim>\<open>20250316\<close>. As
  claimed, the sweep removes the file dated \<open>today - 31\<close> and keeps the file dated
  \<open>today - 29\<close>, and with \<open>retentionDays = 0\<close> it does nothing. But the files it removes
  are not exactly the matching files dated before the cutoff: it also removes
  \<^verbatim>\<open>AppLog_2025-04-14.txt\<close>, written the day before. That name is not of the shape
  \<open>{filePrefix}_{YYYYMMDD}.txt\<close> and holds no date of that layout; the source takes the
  eight bytes \<^verbatim>\<open>2025-04-\<close> after the prefix for one, and they sort below the cutoff. The
  comment on the source's test of the name reads \<^verbatim>\<open>Prefix_YYYYMMDD.txt\<close>.
\<close>

theorem C3_sweep_removes_other_than_matching:
  "Format_20060102 (AddDate_days ex_now (- retentionDays (ex_logger 30))) = ''20250316'' \<and>
   entries ex_mixed =
     [((''log'', ''AppLog_20250315.txt''), File ''old''),
      ((''log'', ''AppLog_2025-04-14.txt''), File ''yesterday''),
      ((''log'', ''AppLog_20250317.txt''), File ''new'')] \<and>
   entries (cleanOldLogs (ex_logger 30) ex_now None ex_mixed) =
     [((''log'', ''AppLog_20250317.txt''), File ''new'')] \<and>
   console (cleanOldLogs (ex_logger 30) ex_now None ex_mixed) =
     [Cleaned ''AppLog_20250315.txt'', Cleaned ''AppLog_2025-04-14.txt''] \<and>
   cleanOldLogs (ex_logger 0) ex_now None ex_mixed = ex_mixed"
proof -
  have "Format_20060102 (AddDate_days ex_now (- retentionDays (ex_logger 30))) = ''20250316''"
    by (simp add: ex_logger_def init_logger_def ex_back30 ex_formats)
  moreover have "cleanOldLogs (ex_logger 0) ex_now None ex_mixed = ex_mixed"
    by (simp add: cleanOldLogs_def ex_logger_def init_logger_def)
  moreover have "entries (cleanOldLogs (ex_logger 30) ex_now None ex_mixed) =
       [((''log'', ''AppLog_20250317.txt''), File ''new'')]"
    "console (cleanOldLogs (ex_logger 30) ex_now None ex_mixed) =
       [Cleaned ''AppLog_20250315.txt'', Cleaned ''AppLog_2025-04-14.txt'']"
    unfolding ex_sweep
    by (simp_all add: sweep_step expired_def os_Remove_def ex_mixed_def ex_logger_def init_logger_def
        HasPrefix_def HasSuffix_def Join_def Printf_def AList.delete_eq del: sweep.simps(2))
  ultimately show ?thesis by (simp add: ex_mixed_def)
qed

text \<open>
  Claim C4. The sweep is claimed never to delete a name that is not
  \<open>{filePrefix}_{8 digits}.txt\<close>. The source checks the prefix, the suffix and a
  minimal length only (its comment reads \<^verbatim>\<open>Prefix_YYYYMMDD.txt\<close>): here it removes
  \<^verbatim>\<open>AppLog_-archive-.txt\<close>, whose eight bytes are not digits, and
  \<^verbatim>\<open>AppLog_19990101_keep.txt\<close>, which has more between the date and the extension.
  The directory and the other stream's file are left alone.
\<close>

theorem C4_sweep_deletes_unshaped_names:
  "map_of (entries ex_dir) (Join ''log'' ''AppLog_-archive-.txt'') = Some (File ''notes'') \<and>
   map_of (entries ex_dir) (Join ''log'' ''AppLog_19990101_keep.txt'') = Some (File ''kept'') \<and>
   map_of (entries (cleanOldLogs (ex_logger 30) ex_now None ex_dir)) (Join ''log'' ''AppLog_-archive-.txt'') = None \<and>
   map_of (entries (cleanOldLogs (ex_logger 30) ex_now None ex_dir)) (Join ''log'' ''AppLog_19990101_keep.txt'') = None \<and>
   map fst (entries (cleanOldLogs (ex_logger 30) ex_now None ex_dir)) =
     [(''log'', ''AppLog_20250317.txt''), (''log'', ''AppLog_20240101.txt''), (''log'', ''CommLog_20200101.txt'')]"
  unfolding ex_sweep
  by (simp add: sweep_step expired_def os_Remove_def ex_dir_def ex_logger_def init_logger_def
      HasPrefix_def HasSuffix_def Join_def Printf_def AList.delete_eq del: sweep.simps(2))

section \<open>The writer and the operating system\<close>

declare split_paired_All [simp del] split_paired_Ex [simp del]

lemma same_env_refl: "same_env w w"
  by (simp add: same_env_def)

lemma is_file_cases: "is_file w p \<Longrightarrow> \<exists>b. map_of (entries w) p = Some (File b)"
  by (auto simp add: is_file_def split: option.splits node.splits)

lemma os_Write_effect:
  assumes "fds w f = Some p" "replies w = []" "is_file w p"
  shows "\<exists>w'. os_Write w f bs = ((length bs, None), w') \<and> same_env w w' \<and>
           contents w' = (contents w)(p := contents w p @ bs) \<and>
           is_dir w' = is_dir w \<and> is_file w' = is_file w"
proof -
  from is_file_cases [OF assms(3)] obtain b where b: "map_of (entries w) p = Some (File b)"
    by blast
  define w' where "w' = w\<lparr>entries := AList.update p (File (b @ bs)) (entries w)\<rparr>"
  have "os_Write w f bs = ((length bs, None), w')"
    using assms(1,2) b by (simp add: os_Write_def w'_def)
  moreover have "same_env w w'" by (simp add: same_env_def w'_def)
  moreover have "contents w' = (contents w)(p := contents w p @ bs)"
    using b by (auto simp add: contents_def w'_def update_conv' fun_eq_iff)
  moreover have "is_dir w' = is_dir w"
    using b by (auto simp add: is_dir_def w'_def update_conv' fun_eq_iff)
  moreover have "is_file w' = is_file w"
    using b by (auto simp add: is_file_def w'_def update_conv' fun_eq_iff)
  ultimately show ?thesis by blast
qed

lemma Flush_effect:
  assumes "\<not> werr b" "fds w (wfd b) = Some p" "replies w = []" "is_file w p"
  shows "\<exists>w'. Flush b w = (b\<lparr>wbuf := []\<rparr>, w') \<and> same_env w w' \<and>
           contents w' = (contents w)(p := contents w p @ wbuf b) \<and>
           is_dir w' = is_dir w \<and> is_file w' = is_file w"
proof (cases "wbuf b = []")
  case True
  then show ?thesis using assms by (auto simp add: Flush_def same_env_def fun_eq_iff)
next
  case False
  from os_Write_effect [OF assms(2-4), of "wbuf b"] obtain w' where
    "os_Write w (wfd b) (wbuf b) = ((length (wbuf b), None), w')" "same_env w w'"
    "contents w' = (contents w)(p := contents w p @ wbuf b)" "is_dir w' = is_dir w"
    "is_file w' = is_file w"
    by blast
  then show ?thesis using assms False by (simp add: Flush_def)
qed

lemma Flush_empty: "wbuf b = [] \<Longrightarrow> Flush b w = (b, w)"
  by (simp add: Flush_def)

lemma write_through_effect:
  assumes "\<not> werr b" "fds w (wfd b) = Some p" "replies w = []" "is_file w p"
  shows "\<exists>w'. write_through b s w = (b, w') \<and> same_env w w' \<and>
           contents w' = (contents w)(p := contents w p @ s) \<and>
           is_dir w' = is_dir w \<and> is_file w' = is_file w"
proof -
  from os_Write_effect [OF assms(2-4), of s] obtain w' where
    "os_Write w (wfd b) s = ((length s, None), w')" "same_env w w'"
    "contents w' = (contents w)(p := contents w p @ s)" "is_dir w' = is_dir w"
    "is_file w' = is_file w"
    by blast
  then show ?thesis by (simp add: write_through_def)
qed

lemma WriteString_effect:
  assumes e: "\<not> werr b" and f: "fds w (wfd b) = Some p" and o: "replies w = []" and i: "is_file w p"
  shows "\<exists>b' w'. WriteString b s w = (b', w') \<and> same_env w w' \<and> \<not> werr b' \<and> wfd b' = wfd b \<and>
           (\<forall>q. contents w' q @ (if q = p then wbuf b' else []) =
                contents w q @ (if q = p then wbuf b @ s else [])) \<and>
           is_dir w' = is_dir w \<and> is_file w' = is_file w"
proof -
  consider (fits) "length s \<le> 4096 - length (wbuf b)"
    | (direct) "\<not> length s \<le> 4096 - length (wbuf b)" "wbuf b = []"
    | (fill) "\<not> length s \<le> 4096 - length (wbuf b)" "wbuf b \<noteq> []"
    by blast
  then show ?thesis
  proof cases
    case fits
    then show ?thesis using e by (simp add: WriteString_def same_env_refl)
  next
    case direct
    from write_through_effect [OF e f o i, of s] obtain w' where
      "write_through b s w = (b, w')" "same_env w w'"
      "contents w' = (contents w)(p := contents w p @ s)" "is_dir w' = is_dir w"
      "is_file w' = is_file w"
      by blast
    then show ?thesis using e direct by (simp add: WriteString_def)
  next
    case fill
    define n where "n = 4096 - length (wbuf b)"
    define b0 where "b0 = b\<lparr>wbuf := wbuf b @ take n s\<rparr>"
    have e0: "\<not> werr b0" and f0: "fds w (wfd b0) = Some p"
      using e f by (simp_all add: b0_def)
    from Flush_effect [OF e0 f0 o i] obtain w1 where
      w1: "Flush b0 w = (b0\<lparr>wbuf := []\<rparr>, w1)" "same_env w w1"
      "contents w1 = (contents w)(p := contents w p @ wbuf b0)" "is_dir w1 = is_dir w"
      "is_file w1 = is_file w"
      by blast
    define b1 where "b1 = b0\<lparr>wbuf := []\<rparr>"
    have e1: "\<not> werr b1" and f1: "fds w1 (wfd b1) = Some p" and d1: "wfd b1 = wfd b" and u1: "wbuf b1 = []"
      and o1: "replies w1 = []" and i1: "is_file w1 p"
      using e f o i w1(2,5) by (simp_all add: b1_def b0_def same_env_def)
    have split: "wbuf b0 @ drop n s = wbuf b @ s"
      by (simp add: b0_def)
    show ?thesis
    proof (cases "length (drop n s) \<le> 4096")
      case True
      define b2 where "b2 = b1\<lparr>wbuf := drop n s\<rparr>"
      have b2: "\<not> werr b2" "wfd b2 = wfd b" "wbuf b2 = drop n s"
        using e1 d1 by (simp_all add: b2_def)
      have "WriteString b s w = (b2, w1)"
        using fill e e1 True w1(1) u1 unfolding b2_def
        by (simp add: WriteString_def Let_def n_def [symmetric] b0_def [symmetric] b1_def [symmetric])
      moreover have "\<forall>q. contents w1 q @ (if q = p then wbuf b2 else []) =
                contents w q @ (if q = p then wbuf b @ s else [])"
        unfolding b2(3) using w1(3) split by simp
      ultimately show ?thesis using w1(2,4,5) b2(1,2) by blast
    next
      case False
      from write_through_effect [OF e1 f1 o1 i1, of "drop n s"] obtain w2 where
        w2: "write_through b1 (drop n s) w1 = (b1, w2)" "same_env w1 w2"
        "contents w2 = (contents w1)(p := contents w1 p @ drop n s)" "is_dir w2 = is_dir w1"
        "is_file w2 = is_file w1"
        by blast
      have "WriteString b s w = (b1, w2)"
        using fill e e1 False w1(1) w2(1)
        by (simp add: WriteString_def Let_def n_def [symmetric] b0_def [symmetric] b1_def [symmetric])
      moreover have "\<forall>q. contents w2 q @ (if q = p then wbuf b1 else []) =
                contents w q @ (if q = p then wbuf b @ s else [])"
        using w1(3) w2(3) split u1 by simp
      moreover have "same_env w w2" using w1(2) w2(2) by (simp add: same_env_def)
      moreover have "is_dir w2 = is_dir w" "is_file w2 = is_file w"
        using w1(4,5) w2(4,5) by simp_all
      ultimately show ?thesis using e1 d1 by blast
    qed
  qed
qed

lemma static_refl: "static l l"
  by (simp add: static_def)

lemma static_trans: "static l l1 \<Longrightarrow> static l1 l2 \<Longrightarrow> static l l2"
  by (simp add: static_def)

lemma static_target: "static l l' \<Longrightarrow> target l' t = target l t"
  by (simp add: static_def target_def)

lemma obs_Close [simp]:
  "contents (os_Close w f) = contents w" "is_dir (os_Close w f) = is_dir w"
  "is_file (os_Close w f) = is_file w"
  "fds (os_Close w f) = (fds w)(f := None)" "nextfd (os_Close w f) = nextfd w"
  "console (os_Close w f) = console w" "opens (os_Close w f) = opens w"
  "sweeps (os_Close w f) = sweeps w" "replies (os_Close w f) = replies w" "busy (os_Close w f) = busy w"
  by (simp_all add: os_Close_def contents_def is_dir_def is_file_def fun_eq_iff)

lemma obs_Printf [simp]:
  "contents (Printf r w) = contents w" "is_dir (Printf r w) = is_dir w"
  "is_file (Printf r w) = is_file w"
  "fds (Printf r w) = fds w" "nextfd (Printf r w) = nextfd w"
  "console (Printf r w) = console w @ [r]" "opens (Printf r w) = opens w"
  "sweeps (Printf r w) = sweeps w" "replies (Printf r w) = replies w" "busy (Printf r w) = busy w"
  by (simp_all add: Printf_def contents_def is_dir_def is_file_def fun_eq_iff)

lemma obs_updates [simp]:
  "contents (w\<lparr>sweeps := n\<rparr>) = contents w" "is_dir (w\<lparr>sweeps := n\<rparr>) = is_dir w"
  "is_file (w\<lparr>sweeps := n\<rparr>) = is_file w"
  "contents (w\<lparr>opens := ps\<rparr>) = contents w" "is_dir (w\<lparr>opens := ps\<rparr>) = is_dir w"
  "is_file (w\<lparr>opens := ps\<rparr>) = is_file w"
  by (simp_all add: contents_def is_dir_def is_file_def fun_eq_iff)

lemma os_OpenFile_ok:
  assumes "\<not> is_dir w p"
  shows "\<exists>w'. os_OpenFile w p None = (Inr (nextfd w), w') \<and> contents w' = contents w \<and>
           fds w' = (fds w)(nextfd w \<mapsto> p) \<and> nextfd w' = nextfd w + 1 \<and>
           console w' = console w \<and> opens w' = opens w @ [p] \<and> sweeps w' = sweeps w \<and>
           replies w' = replies w \<and> busy w' = busy w \<and>
           is_dir w' = is_dir w \<and> is_file w' = (is_file w)(p := True)"
proof (cases "map_of (entries w) p")
  case None
  then show ?thesis
    by (auto simp add: os_OpenFile_def Let_def contents_def is_dir_def is_file_def fun_eq_iff
        map_add_def split: option.splits)
next
  case (Some nd)
  with assms obtain b where "nd = File b" by (cases nd) (simp_all add: is_dir_def)
  with Some show ?thesis
    by (simp add: os_OpenFile_def Let_def contents_def is_dir_def is_file_def fun_eq_iff)
qed

lemma os_OpenFile_err: "os_OpenFile w p (Some e) = (Inl e, w\<lparr>opens := opens w @ [p]\<rparr>)"
  by (simp add: os_OpenFile_def)

lemma os_OpenFile_dir:
  "is_dir w p \<Longrightarrow> os_OpenFile w p None = (Inl ''is a directory'', w\<lparr>opens := opens w @ [p]\<rparr>)"
  by (simp add: os_OpenFile_def is_dir_def)

section \<open>One turn of the worker's loop\<close>

lemma healthy_replies: "healthy l w \<Longrightarrow> replies w = []"
  by (simp add: healthy_def)

lemma healthy_file: "healthy l w \<Longrightarrow> file' l = Some f \<Longrightarrow> is_file w (current_path l)"
  by (simp add: healthy_def)

lemma healthy_idle: "replies w = [] \<Longrightarrow> file' l = None \<Longrightarrow> healthy l w"
  by (simp add: healthy_def)

lemma retire_effect:
  assumes c: "consistent l w" and h: "healthy l w"
  shows "\<exists>l2 w2. retire l w = (l2, w2) \<and> file' l2 = None \<and> consistent l2 w2 \<and> healthy l2 w2 \<and>
           static l l2 \<and> currentDate l2 = currentDate l \<and>
           (\<forall>q. contents w2 q = logical l w q) \<and> (\<forall>q. pending l2 w2 q = []) \<and>
           fds w2 = (case file' l of None \<Rightarrow> fds w | Some f \<Rightarrow> (fds w)(f := None)) \<and>
           nextfd w2 = nextfd w \<and> console w2 = console w \<and> opens w2 = opens w \<and> sweeps w2 = sweeps w \<and>
           is_dir w2 = is_dir w \<and> is_file w2 = is_file w"
proof (cases "writer l")
  case None
  with c have "file' l = None" by (simp add: consistent_def)
  with None h show ?thesis
    by (simp add: retire_def flush_writer_def close_file_def consistent_def healthy_def static_def
        logical_def pending_def)
next
  case (Some b)
  with c have e: "\<not> werr b" by (simp add: consistent_def)
  show ?thesis
  proof (cases "file' l")
    case None
    with c Some have "wbuf b = []" by (simp add: consistent_def)
    with None Some e h show ?thesis
      by (simp add: retire_def flush_writer_def close_file_def Flush_empty consistent_def healthy_def
          static_def logical_def pending_def)
  next
    case (Some f)
    with c \<open>writer l = Some b\<close> have f: "wfd b = f" "fds w f = Some (current_path l)"
      by (simp_all add: consistent_def)
    then have fb: "fds w (wfd b) = Some (current_path l)" by simp
    from Flush_effect [OF e fb healthy_replies [OF h] healthy_file [OF h Some]] obtain w1 where
      w1: "Flush b w = (b\<lparr>wbuf := []\<rparr>, w1)" "same_env w w1"
      "contents w1 = (contents w)(current_path l := contents w (current_path l) @ wbuf b)"
      "is_dir w1 = is_dir w" "is_file w1 = is_file w"
      by blast
    have r: "retire l w = (l\<lparr>writer := Some (b\<lparr>wbuf := []\<rparr>), file' := None\<rparr>, os_Close w1 f)"
      using \<open>writer l = Some b\<close> Some w1(1) by (simp add: retire_def flush_writer_def close_file_def)
    have lg: "\<forall>q. contents (os_Close w1 f) q = logical l w q"
      using w1(3) \<open>writer l = Some b\<close> fb
      by (simp add: logical_def pending_def)
    have ro: "replies w1 = []" using w1(2) healthy_replies [OF h] by (simp add: same_env_def)
    show ?thesis
      unfolding r using Some e w1(2,4,5) lg ro
      by (simp add: consistent_def healthy_def static_def pending_def same_env_def)
  qed
qed

lemma write_msg_effect:
  assumes c: "consistent l w" and h: "healthy l w" and o: "file' l = Some f"
  shows "\<exists>l' w'. write_msg l w now msg = (None, l', w') \<and> consistent l' w' \<and> healthy l' w' \<and>
           static l l' \<and> file' l' = file' l \<and> currentDate l' = currentDate l \<and> same_env w w' \<and>
           (\<forall>q. logical l' w' q =
                logical l w q @ (if q = current_path l then log_line now msg else [])) \<and>
           is_dir w' = is_dir w \<and> is_file w' = is_file w"
proof -
  from c o obtain b where b: "writer l = Some b"
    by (cases "writer l") (simp_all add: consistent_def)
  with c o have e: "\<not> werr b" and fb: "fds w (wfd b) = Some (current_path l)" and wf: "wfd b = f"
    by (simp_all add: consistent_def)
  from WriteString_effect [OF e fb healthy_replies [OF h] healthy_file [OF h o], of "log_line now msg"]
  obtain b' w' where
    ws: "WriteString b (log_line now msg) w = (b', w')" "same_env w w'" "\<not> werr b'" "wfd b' = wfd b"
    "\<forall>q. contents w' q @ (if q = current_path l then wbuf b' else []) =
         contents w q @ (if q = current_path l then wbuf b @ log_line now msg else [])"
    "is_dir w' = is_dir w" "is_file w' = is_file w"
    by blast
  define l' where "l' = l\<lparr>writer := Some b'\<rparr>"
  have r: "write_msg l w now msg = (None, l', w')"
    using b ws(1) by (simp add: write_msg_def log_line_def l'_def)
  have fd': "fds w' = fds w" using ws(2) by (simp add: same_env_def)
  have c': "consistent l' w'"
    using o ws(3,4) wf fb fd' by (simp add: consistent_def l'_def current_path_def)
  have h': "healthy l' w'"
    using h ws(2,7) by (simp add: healthy_def l'_def current_path_def same_env_def)
  have st: "static l l'" "file' l' = file' l" "currentDate l' = currentDate l"
    by (simp_all add: static_def l'_def)
  have lg: "\<forall>q. logical l' w' q = logical l w q @ (if q = current_path l then log_line now msg else [])"
  proof
    fix q
    have "logical l' w' q = contents w' q @ (if q = current_path l then wbuf b' else [])"
      using fb fd' ws(4) by (auto simp add: logical_def pending_def l'_def)
    also have "\<dots> = contents w q @ (if q = current_path l then wbuf b @ log_line now msg else [])"
      using ws(5) by blast
    also have "\<dots> = logical l w q @ (if q = current_path l then log_line now msg else [])"
      using b fb by (auto simp add: logical_def pending_def)
    finally show "logical l' w' q = logical l w q @ (if q = current_path l then log_line now msg else [])" .
  qed
  show ?thesis using r c' h' st ws(2,6,7) lg by blast
qed

lemma current_path_target: "currentDate l = Format_20060102 now \<Longrightarrow> current_path l = target l now"
  by (simp add: current_path_def target_def)

lemma target_eq_current_path: "(target l now = current_path l) = (Format_20060102 now = currentDate l)"
  by (simp add: current_path_def target_def Join_def)

lemma on_message_same_day:
  assumes c: "consistent l w" and h: "healthy l w" and n: "\<not> needs_open l now"
  shows "\<exists>l' w'. on_message l w now oerr msg = (None, l', w') \<and> consistent l' w' \<and> healthy l' w' \<and>
           static l l' \<and> file' l' = file' l \<and> currentDate l' = currentDate l \<and> same_env w w' \<and>
           (\<forall>q. logical l' w' q =
                logical l w q @ (if q = target l now then log_line now msg else [])) \<and>
           is_dir w' = is_dir w \<and> is_file w' = is_file w"
proof -
  from n obtain f where f: "file' l = Some f" and d: "currentDate l = Format_20060102 now"
    by (auto simp add: needs_open_def)
  have "on_message l w now oerr msg = write_msg l w now msg"
    using f d by (simp add: on_message_def)
  then show ?thesis
    using write_msg_effect [OF c h f, of now msg] current_path_target [OF d] by simp
qed

lemma openFile_ok:
  assumes "\<not> is_dir w (target l now)"
  shows "\<exists>w'. openFile l now None w =
             (None, l\<lparr>file' := Some (nextfd w), writer := Some (NewWriter (nextfd w)),
                      currentDate := Format_20060102 now\<rparr>, w') \<and>
           contents w' = contents w \<and> fds w' = (fds w)(nextfd w \<mapsto> target l now) \<and>
           nextfd w' = nextfd w + 1 \<and> console w' = console w \<and>
           opens w' = opens w @ [target l now] \<and> sweeps w' = sweeps w \<and>
           replies w' = replies w \<and> busy w' = busy w \<and>
           is_dir w' = is_dir w \<and> is_file w' = (is_file w)(target l now := True)"
proof -
  from os_OpenFile_ok [OF assms] obtain w' where
    "os_OpenFile w (target l now) None = (Inr (nextfd w), w')" "contents w' = contents w"
    "fds w' = (fds w)(nextfd w \<mapsto> target l now)" "nextfd w' = nextfd w + 1" "console w' = console w"
    "opens w' = opens w @ [target l now]" "sweeps w' = sweeps w" "replies w' = replies w" "busy w' = busy w"
    "is_dir w' = is_dir w" "is_file w' = (is_file w)(target l now := True)"
    by blast
  then show ?thesis
    by (simp add: openFile_def target_def Let_def)
qed

lemma openFile_failed:
  assumes "open_fails l w now oerr = Some e"
  shows "openFile l now oerr w = (Some e, l, w\<lparr>opens := opens w @ [target l now]\<rparr>)"
proof (cases oerr)
  case None
  with assms have "is_dir w (target l now)" "e = ''is a directory''"
    by (auto simp add: open_fails_def split: if_splits)
  with None show ?thesis
    using os_OpenFile_dir [of w "target l now"] by (simp add: openFile_def target_def Let_def)
next
  case (Some e')
  with assms have "e' = e" by (simp add: open_fails_def)
  with Some show ?thesis
    by (simp add: openFile_def target_def Let_def os_OpenFile_err)
qed

lemma pending_idle: "consistent l w \<Longrightarrow> file' l = None \<Longrightarrow> pending l w' q = []"
  by (cases "writer l") (simp_all add: consistent_def pending_def)

lemma consistent_idle: "consistent l w \<Longrightarrow> file' l = None \<Longrightarrow> consistent l w'"
  by (cases "writer l") (simp_all add: consistent_def)

lemma on_message_open_failed:
  assumes c: "consistent l w" and h: "healthy l w" and n: "needs_open l now"
    and x: "open_fails l w now oerr = Some e"
  shows "\<exists>l' w'. on_message l w now oerr msg = (None, l', w') \<and> consistent l' w' \<and> healthy l' w' \<and>
           static l l' \<and> file' l' = None \<and> currentDate l' = currentDate l \<and>
           (\<forall>q. contents w' q = logical l w q) \<and> (\<forall>q. logical l' w' q = logical l w q) \<and>
           fds w' = (case file' l of None \<Rightarrow> fds w | Some f \<Rightarrow> (fds w)(f := None)) \<and>
           nextfd w' = nextfd w \<and> console w' = console w @ [OpenFailed e, Unsaved msg] \<and>
           opens w' = opens w @ [target l now] \<and> sweeps w' = sweeps w \<and>
           is_dir w' = is_dir w \<and> is_file w' = is_file w"
proof -
  from retire_effect [OF c h] obtain l2 w2 where
    r: "retire l w = (l2, w2)" "file' l2 = None" "consistent l2 w2" "static l l2"
    "currentDate l2 = currentDate l" "\<forall>q. contents w2 q = logical l w q"
    "fds w2 = (case file' l of None \<Rightarrow> fds w | Some f \<Rightarrow> (fds w)(f := None))"
    "nextfd w2 = nextfd w" "console w2 = console w" "opens w2 = opens w" "sweeps w2 = sweeps w"
    "is_dir w2 = is_dir w" "is_file w2 = is_file w" "healthy l2 w2"
    by blast
  have t: "target l2 now = target l now" using r(4) by (rule static_target)
  have x2: "open_fails l2 w2 now oerr = Some e"
    using x t r(12) by (cases oerr) (simp_all add: open_fails_def)
  define w' where "w' = Printf (Unsaved msg) (Printf (OpenFailed e) (w2\<lparr>opens := opens w2 @ [target l2 now]\<rparr>))"
  have res: "on_message l w now oerr msg = (None, l2, w')"
    using n r(1) openFile_failed [OF x2] by (simp add: on_message_def needs_open_def w'_def)
  have c': "consistent l2 w'" using r(3,2) by (rule consistent_idle)
  have h': "healthy l2 w'"
    using healthy_replies [OF r(14)] r(2) by (simp add: healthy_def w'_def)
  have cont: "\<forall>q. contents w' q = logical l w q" using r(6) by (simp add: w'_def)
  have lg: "\<forall>q. logical l2 w' q = logical l w q"
    using cont pending_idle [OF r(3,2)] by (simp add: logical_def)
  have obs: "fds w' = (case file' l of None \<Rightarrow> fds w | Some f \<Rightarrow> (fds w)(f := None))"
    "nextfd w' = nextfd w" "console w' = console w @ [OpenFailed e, Unsaved msg]"
    "opens w' = opens w @ [target l now]" "sweeps w' = sweeps w"
    using r(7-11) t by (simp_all add: w'_def)
  have dirs: "is_dir w' = is_dir w" "is_file w' = is_file w" using r(12,13) by (simp_all add: w'_def)
  show ?thesis using res c' h' r(4,2,5) cont lg obs dirs by blast
qed

lemma on_message_rotate:
  assumes c: "consistent l w" and h: "healthy l w" and n: "needs_open l now"
    and x: "open_fails l w now oerr = None"
  shows "\<exists>l' w'. on_message l w now oerr msg = (None, l', w') \<and> consistent l' w' \<and> healthy l' w' \<and>
           static l l' \<and> file' l' = Some (nextfd w) \<and> currentDate l' = Format_20060102 now \<and>
           (\<forall>q. logical l' w' q =
                logical l w q @ (if q = target l now then log_line now msg else [])) \<and>
           (\<forall>q. q \<noteq> target l now \<longrightarrow> contents w' q = logical l w q) \<and>
           fds w' = (case file' l of None \<Rightarrow> fds w | Some f \<Rightarrow> (fds w)(f := None))
                      (nextfd w \<mapsto> target l now) \<and>
           nextfd w' = nextfd w + 1 \<and> console w' = console w @ [DateChanged (Format_20060102 now)] \<and>
           opens w' = opens w @ [target l now] \<and> sweeps w' = sweeps w + 1 \<and>
           is_dir w' = is_dir w \<and> is_file w' = (is_file w)(target l now := True)"
proof -
  from x have oe: "oerr = None" and nd: "\<not> is_dir w (target l now)"
    by (auto simp add: open_fails_def split: option.splits if_splits)
  from retire_effect [OF c h] obtain l2 w2 where
    r: "retire l w = (l2, w2)" "file' l2 = None" "consistent l2 w2" "static l l2"
    "currentDate l2 = currentDate l" "\<forall>q. contents w2 q = logical l w q"
    "fds w2 = (case file' l of None \<Rightarrow> fds w | Some f \<Rightarrow> (fds w)(f := None))"
    "nextfd w2 = nextfd w" "console w2 = console w" "opens w2 = opens w" "sweeps w2 = sweeps w"
    "is_dir w2 = is_dir w" "is_file w2 = is_file w" "healthy l2 w2"
    by blast
  have t: "target l2 now = target l now" using r(4) by (rule static_target)
  have nd2: "\<not> is_dir w2 (target l2 now)" unfolding t using nd r(12) by simp
  define l3 where "l3 = l2\<lparr>file' := Some (nextfd w2), writer := Some (NewWriter (nextfd w2)),
                      currentDate := Format_20060102 now\<rparr>"
  from openFile_ok [OF nd2] obtain w3 where
    o: "openFile l2 now None w2 = (None, l3, w3)" "contents w3 = contents w2"
    "fds w3 = (fds w2)(nextfd w2 \<mapsto> target l2 now)" "nextfd w3 = nextfd w2 + 1" "console w3 = console w2"
    "opens w3 = opens w2 @ [target l2 now]" "sweeps w3 = sweeps w2" "is_dir w3 = is_dir w2"
    "replies w3 = replies w2" "is_file w3 = (is_file w2)(target l2 now := True)"
    unfolding l3_def by blast
  define w4 where "w4 = (Printf (DateChanged (currentDate l3)) w3)\<lparr>sweeps := sweeps w3 + 1\<rparr>"
  have res: "on_message l w now oerr msg = write_msg l3 w4 now msg"
    using n r(1) o(1) oe by (simp add: on_message_def needs_open_def w4_def)
  have cp3: "current_path l3 = target l now"
    using r(4) by (simp add: l3_def current_path_def target_def static_def)
  have f3: "file' l3 = Some (nextfd w)" using r(8) by (simp add: l3_def)
  have c3: "consistent l3 w4"
    using o(3) t cp3 by (simp add: consistent_def l3_def w4_def NewWriter_def)
  have ro4: "replies w4 = []" using o(9) healthy_replies [OF r(14)] by (simp add: w4_def)
  have if4: "is_file w4 = (is_file w)(target l now := True)"
    using o(10) r(13) t by (simp add: w4_def)
  have h3: "healthy l3 w4"
    using ro4 if4 cp3 by (simp add: healthy_def)
  have lg3: "\<forall>q. logical l3 w4 q = logical l w q"
    using o(2) r(6) by (simp add: logical_def pending_def l3_def w4_def NewWriter_def)
  from write_msg_effect [OF c3 h3 f3, of now msg] obtain l' w' where
    m: "write_msg l3 w4 now msg = (None, l', w')" "consistent l' w'" "static l3 l'"
    "file' l' = file' l3" "currentDate l' = currentDate l3" "same_env w4 w'"
    "\<forall>q. logical l' w' q = logical l3 w4 q @ (if q = current_path l3 then log_line now msg else [])"
    "is_dir w' = is_dir w4" "is_file w' = is_file w4" "healthy l' w'"
    by blast
  have st: "static l l'"
    using r(4) m(3) by (simp add: static_def l3_def)
  have lg: "\<forall>q. logical l' w' q = logical l w q @ (if q = target l now then log_line now msg else [])"
    using m(7) lg3 cp3 by simp
  have fd': "fds w' = (case file' l of None \<Rightarrow> fds w | Some f \<Rightarrow> (fds w)(f := None))
                      (nextfd w \<mapsto> target l now)"
    using m(6) o(3) r(7,8) t by (simp add: same_env_def w4_def)
  have pend: "\<forall>q. q \<noteq> target l now \<longrightarrow> pending l' w' q = []"
  proof (intro allI impI)
    fix q assume q: "q \<noteq> target l now"
    from m(2,4) f3 obtain b where b: "writer l' = Some b" "wfd b = nextfd w"
      by (cases "writer l'") (auto simp add: consistent_def)
    then show "pending l' w' q = []" using fd' q by (auto simp add: pending_def)
  qed
  have cont: "\<forall>q. q \<noteq> target l now \<longrightarrow> contents w' q = logical l w q"
  proof (intro allI impI)
    fix q assume q: "q \<noteq> target l now"
    have "contents w' q = logical l' w' q" using pend q by (simp add: logical_def)
    also have "\<dots> = logical l w q" using lg q by simp
    finally show "contents w' q = logical l w q" .
  qed
  have obs: "nextfd w' = nextfd w + 1" "console w' = console w @ [DateChanged (Format_20060102 now)]"
    "opens w' = opens w @ [target l now]" "sweeps w' = sweeps w + 1"
    using m(6) o(4-7) r(8-11) t by (simp_all add: same_env_def w4_def l3_def)
  have dirs: "is_dir w' = is_dir w" "is_file w' = (is_file w)(target l now := True)"
    using m(8,9) o(8) r(12) if4 by (simp_all add: w4_def)
  have f': "file' l' = Some (nextfd w)" "currentDate l' = Format_20060102 now"
    using m(4,5) f3 by (simp_all add: l3_def)
  show ?thesis
    unfolding res using m(1,2,10) st f' lg cont fd' obs dirs by blast
qed

section \<open>The loop over a schedule\<close>

lemma written_Nil [simp]: "written l p [] = []"
  by (simp add: written_def)

lemma written_Cons [simp]:
  "written l p ((now, msg) # xs) = (if p = target l now then log_line now msg else []) @ written l p xs"
  by (auto simp add: written_def)


lemma msgChan_update_obs [simp]:
  "consistent (l\<lparr>msgChan := c\<rparr>) w = consistent l w"
  "healthy (l\<lparr>msgChan := c\<rparr>) w = healthy l w"
  "logical (l\<lparr>msgChan := c\<rparr>) w = logical l w"
  "pending (l\<lparr>msgChan := c\<rparr>) w = pending l w"
  "target (l\<lparr>msgChan := c\<rparr>) = target l"
  "current_path (l\<lparr>msgChan := c\<rparr>) = current_path l"
  "needs_open (l\<lparr>msgChan := c\<rparr>) = needs_open l"
  "open_fails (l\<lparr>msgChan := c\<rparr>) = open_fails l"
  by (simp_all add: consistent_def healthy_def logical_def pending_def target_def current_path_def
      needs_open_def open_fails_def fun_eq_iff split: option.splits)

lemma flush_writer_effect:
  assumes c: "consistent l w" and h: "healthy l w"
  shows "\<exists>l' w'. flush_writer l w = (l', w') \<and> consistent l' w' \<and> healthy l' w' \<and> static l l' \<and>
           file' l' = file' l \<and> currentDate l' = currentDate l \<and> same_env w w' \<and>
           (\<forall>q. contents w' q = logical l w q) \<and> (\<forall>q. pending l' w' q = []) \<and>
           is_dir w' = is_dir w \<and> is_file w' = is_file w"
proof (cases "writer l")
  case None
  with c h show ?thesis
    by (simp add: flush_writer_def consistent_def healthy_def static_def logical_def pending_def
        same_env_def current_path_def)
next
  case (Some b)
  with c have e: "\<not> werr b" by (simp add: consistent_def)
  show ?thesis
  proof (cases "file' l")
    case None
    with c Some have "wbuf b = []" by (simp add: consistent_def)
    with None Some e h show ?thesis
      by (simp add: flush_writer_def Flush_empty consistent_def healthy_def static_def logical_def
          pending_def same_env_def)
  next
    case (Some f)
    with c \<open>writer l = Some b\<close> have fb: "fds w (wfd b) = Some (current_path l)" and wf: "wfd b = f"
      by (simp_all add: consistent_def)
    from Flush_effect [OF e fb healthy_replies [OF h] healthy_file [OF h Some]] obtain w1 where
      w1: "Flush b w = (b\<lparr>wbuf := []\<rparr>, w1)" "same_env w w1"
      "contents w1 = (contents w)(current_path l := contents w (current_path l) @ wbuf b)"
      "is_dir w1 = is_dir w" "is_file w1 = is_file w"
      by blast
    have r: "flush_writer l w = (l\<lparr>writer := Some (b\<lparr>wbuf := []\<rparr>)\<rparr>, w1)"
      using \<open>writer l = Some b\<close> w1(1) by (simp add: flush_writer_def)
    have lg: "\<forall>q. contents w1 q = logical l w q"
      using w1(3) \<open>writer l = Some b\<close> fb by (simp add: logical_def pending_def)
    have h1: "healthy (l\<lparr>writer := Some (b\<lparr>wbuf := []\<rparr>)\<rparr>) w1"
      using h w1(2,5) by (simp add: healthy_def same_env_def current_path_def)
    show ?thesis
      unfolding r using Some e w1(2,4,5) lg fb wf h1
      by (simp add: consistent_def static_def pending_def same_env_def current_path_def)
  qed
qed

lemma on_tick_effect:
  assumes c: "consistent l w" and h: "healthy l w"
  shows "\<exists>l' w'. on_tick l w = (l', w') \<and> consistent l' w' \<and> healthy l' w' \<and> static l l' \<and>
           file' l' = file' l \<and> currentDate l' = currentDate l \<and> same_env w w' \<and>
           (\<forall>q. logical l' w' q = logical l w q) \<and> is_dir w' = is_dir w \<and> is_file w' = is_file w"
proof (cases "\<exists>b. writer l = Some b \<and> wbuf b \<noteq> []")
  case True
  then have t: "on_tick l w = flush_writer l w"
    by (auto simp add: on_tick_def flush_writer_def)
  from flush_writer_effect [OF c h] obtain l' w' where
    f: "flush_writer l w = (l', w')" "consistent l' w'" "healthy l' w'" "static l l'"
    "file' l' = file' l" "currentDate l' = currentDate l" "same_env w w'"
    "\<forall>q. contents w' q = logical l w q" "\<forall>q. pending l' w' q = []"
    "is_dir w' = is_dir w" "is_file w' = is_file w"
    by blast
  have "\<forall>q. logical l' w' q = logical l w q" using f(8,9) by (simp add: logical_def)
  with f t show ?thesis by auto
next
  case False
  then have "on_tick l w = (l, w)"
    by (cases "writer l") (auto simp add: on_tick_def)
  with c h show ?thesis by (simp add: static_refl same_env_refl)
qed

lemma on_message_consistent:
  assumes "consistent l w" "healthy l w"
  shows "\<exists>l' w'. on_message l w now oerr msg = (None, l', w') \<and> consistent l' w' \<and> healthy l' w'"
proof (cases "needs_open l now")
  case False
  from on_message_same_day [OF assms False, of oerr msg] show ?thesis by blast
next
  case True
  show ?thesis
  proof (cases "open_fails l w now oerr")
    case None
    from on_message_rotate [OF assms True None, of msg] show ?thesis by blast
  next
    case (Some e)
    from on_message_open_failed [OF assms True Some, of msg] show ?thesis by blast
  qed
qed

text \<open>
  The invariant holds after every schedule, and the loop panics only on a fault of the
  schedule: the nil writer of \<^verbatim>\<open>write_msg\<close> is never met.
\<close>

lemma worker_loop_consistent:
  "consistent l w \<Longrightarrow> healthy l w \<Longrightarrow> worker_loop l w es = (x, l', w') \<Longrightarrow>
   consistent l' w' \<and> healthy l' w' \<and> (x = Panicked \<longrightarrow> \<not> fault_free es)"
proof (induction es arbitrary: l w)
  case Nil
  then show ?case by simp
next
  case (Cons e es)
  show ?case
  proof (cases e)
    case Fault
    with Cons.prems show ?thesis by simp
  next
    case Tick
    from on_tick_effect [OF Cons.prems(1,2)] obtain l1 w1 where
      t: "on_tick l w = (l1, w1)" "consistent l1 w1" "healthy l1 w1"
      by blast
    with Cons.prems(3) Tick have "worker_loop l1 w1 es = (x, l', w')" by simp
    from Cons.IH [OF t(2,3) this] Tick show ?thesis by simp
  next
    case (Recv now oerr)
    show ?thesis
    proof (cases "recv (msgChan l)")
      case Empty
      with Cons.prems(3) Recv have "worker_loop l w es = (x, l', w')" by simp
      from Cons.IH [OF Cons.prems(1,2) this] Recv show ?thesis by simp
    next
      case Drained
      with Cons.prems Recv show ?thesis by simp
    next
      case (Got m c)
      have c0: "consistent (l\<lparr>msgChan := c\<rparr>) w" "healthy (l\<lparr>msgChan := c\<rparr>) w"
        using Cons.prems(1,2) by simp_all
      from on_message_consistent [OF c0, of now oerr m] obtain l1 w1 where
        s: "on_message (l\<lparr>msgChan := c\<rparr>) w now oerr m = (None, l1, w1)" "consistent l1 w1"
        "healthy l1 w1"
        by blast
      with Cons.prems(3) Recv Got have "worker_loop l1 w1 es = (x, l', w')" by simp
      from Cons.IH [OF s(2,3) this] Recv show ?thesis by simp
    qed
  qed
qed

lemma logFn_consistent: "consistent l w \<Longrightarrow> logFn l m = Ok l' \<Longrightarrow> consistent l' w"
  by (auto simp add: logFn_def split: res.splits)




lemma calm_msgChan [simp]: "calm (l\<lparr>msgChan := c\<rparr>) w es = calm l w es"
proof (induction es)
  case Nil
  show ?case by simp
next
  case (Cons e es)
  then show ?case by (cases e) simp_all
qed

lemma written_msgChan [simp]: "written (l\<lparr>msgChan := c\<rparr>) = written l"
  by (simp add: written_def fun_eq_iff)


section \<open>What the loop delivers\<close>

lemma fates_empty [simp]: "fates ofl cur es [] = []"
proof (induction es)
  case Nil
  show ?case by simp
next
  case (Cons e es)
  then show ?case by (cases e) simp_all
qed



lemma saved_Nil [simp]: "saved [] = []"
  by (simp add: saved_def)

lemma saved_Cons [simp]: "saved ((now, msg, f) # fs) = (if kept f then [(now, msg)] else []) @ saved fs"
  by (simp add: saved_def)




lemma open_date_msgChan [simp]: "open_date (l\<lparr>msgChan := c\<rparr>) = open_date l"
  by (simp add: open_date_def)


section \<open>Whatever the device answers\<close>

text \<open>
  What a turn of the loop does whether its writes succeed or not: the only bytes that
  can reach a file in a flush are bytes the writer had buffered for it, and the
  descriptors, the console and the record of opens and sweeps do not depend on the
  outcome of a write.
\<close>

lemma same_desk_refl: "same_desk w w"
  by (simp add: same_desk_def)

lemma same_desk_trans: "same_desk w w1 \<Longrightarrow> same_desk w1 w2 \<Longrightarrow> same_desk w w2"
  by (simp add: same_desk_def)

lemma os_Write_any:
  "\<exists>n err w'. os_Write w f bs = ((n, err), w') \<and> same_desk w w' \<and> is_dir w' = is_dir w \<and>
     (\<forall>q. \<exists>k. contents w' q = contents w q @ (if fds w f = Some q then take k bs else []))"
proof (cases "fds w f")
  case None
  then show ?thesis by (simp add: os_Write_def same_desk_refl)
next
  case (Some p)
  define n where "n = (case replies w of Some k # rs \<Rightarrow> min k (length bs) | _ \<Rightarrow> length bs)"
  define err where
    "err = (case replies w of Some k # rs \<Rightarrow> Some ''input/output error'' | _ \<Rightarrow> None)"
  define w1 where "w1 = (case replies w of [] \<Rightarrow> w | r # rs \<Rightarrow> w\<lparr>replies := rs\<rparr>)"
  have w1: "same_desk w w1" "entries w1 = entries w"
    by (simp_all add: w1_def same_desk_def split: list.splits)
  then have o1: "is_dir w1 = is_dir w" "contents w1 = contents w"
    by (simp_all add: is_dir_def contents_def fun_eq_iff)
  show ?thesis
  proof (cases "\<exists>b. map_of (entries w) p = Some (File b)")
    case True
    then obtain b where b: "map_of (entries w) p = Some (File b)" by blast
    define w2 where "w2 = w1\<lparr>entries := AList.update p (File (b @ take n bs)) (entries w)\<rparr>"
    have r: "os_Write w f bs = ((n, err), w2)"
      using Some b by (simp add: os_Write_def Let_def n_def err_def w1_def w2_def)
    have "same_desk w w2" using w1(1) by (simp add: same_desk_def w2_def)
    moreover have "is_dir w2 = is_dir w"
      using b by (auto simp add: is_dir_def w2_def update_conv' fun_eq_iff)
    moreover have "\<forall>q. \<exists>k. contents w2 q = contents w q @ (if fds w f = Some q then take k bs else [])"
    proof
      fix q
      have "contents w2 q = contents w q @ (if fds w f = Some q then take n bs else [])"
        using b Some by (auto simp add: contents_def w2_def update_conv')
      then show "\<exists>k. contents w2 q = contents w q @ (if fds w f = Some q then take k bs else [])"
        by blast
    qed
    ultimately show ?thesis using r by blast
  next
    case False
    have r: "os_Write w f bs = ((n, err), w1)"
    proof (cases "map_of (entries w) p")
      case None
      with Some show ?thesis by (simp add: os_Write_def Let_def n_def err_def w1_def)
    next
      case nd: (Some nd)
      with False have "nd = Dir" by (cases nd) simp_all
      with nd Some show ?thesis by (simp add: os_Write_def Let_def n_def err_def w1_def)
    qed
    have "\<forall>q. \<exists>k. contents w1 q = contents w q @ (if fds w f = Some q then take k bs else [])"
    proof
      fix q
      have "contents w1 q = contents w q @ (if fds w f = Some q then take 0 bs else [])"
        using o1(2) by simp
      then show "\<exists>k. contents w1 q = contents w q @ (if fds w f = Some q then take k bs else [])"
        by blast
    qed
    then show ?thesis using r w1(1) o1(1) by blast
  qed
qed

lemma Flush_any:
  "\<exists>b' w'. Flush b w = (b', w') \<and> wfd b' = wfd b \<and> (wbuf b' = [] \<or> werr b') \<and>
     same_desk w w' \<and> is_dir w' = is_dir w \<and>
     (\<forall>q. \<exists>k. contents w' q = contents w q @ (if fds w (wfd b) = Some q then take k (wbuf b) else []))"
proof (cases "werr b \<or> wbuf b = []")
  case True
  then have r: "Flush b w = (b, w)" by (auto simp add: Flush_def)
  have "\<forall>q. \<exists>k. contents w q = contents w q @ (if fds w (wfd b) = Some q then take k (wbuf b) else [])"
  proof
    fix q
    have "contents w q = contents w q @ (if fds w (wfd b) = Some q then take 0 (wbuf b) else [])"
      by simp
    then show "\<exists>k. contents w q = contents w q @ (if fds w (wfd b) = Some q then take k (wbuf b) else [])"
      by blast
  qed
  moreover have "wbuf b = [] \<or> werr b" using True by blast
  ultimately show ?thesis unfolding r by (simp add: same_desk_refl)
next
  case False
  from os_Write_any [of w "wfd b" "wbuf b"] obtain n err w' where
    o: "os_Write w (wfd b) (wbuf b) = ((n, err), w')" "same_desk w w'" "is_dir w' = is_dir w"
    "\<forall>q. \<exists>k. contents w' q = contents w q @ (if fds w (wfd b) = Some q then take k (wbuf b) else [])"
    by blast
  show ?thesis
  proof (cases err)
    case None
    then have "Flush b w = (b\<lparr>wbuf := []\<rparr>, w')" using False o(1) by (simp add: Flush_def)
    then show ?thesis using o(2-4) by simp
  next
    case (Some e)
    then have "Flush b w = (b\<lparr>wbuf := drop n (wbuf b), werr := True\<rparr>, w')"
      using False o(1) by (simp add: Flush_def)
    then show ?thesis using o(2-4) by simp
  qed
qed

lemma write_through_any:
  "\<exists>b' w'. write_through b s w = (b', w') \<and> wfd b' = wfd b \<and> wbuf b' = wbuf b \<and>
     same_desk w w' \<and> is_dir w' = is_dir w"
proof -
  from os_Write_any [of w "wfd b" s] obtain n err w' where
    o: "os_Write w (wfd b) s = ((n, err), w')" "same_desk w w'" "is_dir w' = is_dir w"
    by blast
  then show ?thesis by (cases err) (simp_all add: write_through_def)
qed

lemma WriteString_any:
  "\<exists>b' w'. WriteString b s w = (b', w') \<and> wfd b' = wfd b \<and> same_desk w w' \<and> is_dir w' = is_dir w"
proof -
  consider (err) "werr b" | (fits) "\<not> werr b" "length s \<le> 4096 - length (wbuf b)"
    | (direct) "\<not> werr b" "\<not> length s \<le> 4096 - length (wbuf b)" "wbuf b = []"
    | (fill) "\<not> werr b" "\<not> length s \<le> 4096 - length (wbuf b)" "wbuf b \<noteq> []"
    by blast
  then show ?thesis
  proof cases
    case err
    then show ?thesis by (simp add: WriteString_def same_desk_refl)
  next
    case fits
    then show ?thesis by (simp add: WriteString_def same_desk_refl)
  next
    case direct
    from write_through_any [of b s w] obtain b' w' where
      "write_through b s w = (b', w')" "wfd b' = wfd b" "same_desk w w'" "is_dir w' = is_dir w"
      by blast
    then show ?thesis using direct by (simp add: WriteString_def)
  next
    case fill
    define n where "n = 4096 - length (wbuf b)"
    define b0 where "b0 = b\<lparr>wbuf := wbuf b @ take n s\<rparr>"
    from Flush_any [of b0 w] obtain b1 w1 where
      f: "Flush b0 w = (b1, w1)" "wfd b1 = wfd b0" "same_desk w w1" "is_dir w1 = is_dir w"
      by blast
    from write_through_any [of b1 "drop n s" w1] obtain b2 w2 where
      t: "write_through b1 (drop n s) w1 = (b2, w2)" "wfd b2 = wfd b1" "same_desk w1 w2"
      "is_dir w2 = is_dir w1"
      by blast
    have d: "wfd b0 = wfd b" by (simp add: b0_def)
    have r: "WriteString b s w =
        (if werr b1 then (b1, w1)
         else if length (drop n s) \<le> 4096 then (b1\<lparr>wbuf := wbuf b1 @ drop n s\<rparr>, w1)
         else (b2, w2))"
      using fill f(1) t(1)
      by (simp add: WriteString_def Let_def n_def [symmetric] b0_def [symmetric])
    show ?thesis
      unfolding r using f(2-4) t(2-4) d same_desk_trans [OF f(3) t(3)] by simp
  qed
qed

lemma retire_any:
  "\<exists>l2 w2. retire l w = (l2, w2) \<and> file' l2 = None \<and> static l l2 \<and> currentDate l2 = currentDate l \<and>
     (\<forall>b. writer l2 = Some b \<longrightarrow> wbuf b = [] \<or> werr b) \<and>
     fds w2 = (case file' l of None \<Rightarrow> fds w | Some f \<Rightarrow> (fds w)(f := None)) \<and>
     nextfd w2 = nextfd w \<and> console w2 = console w \<and> opens w2 = opens w \<and> sweeps w2 = sweeps w \<and>
     is_dir w2 = is_dir w \<and>
     (\<forall>q. \<exists>k. contents w2 q = contents w q @ take k (pending l w q))"
proof (cases "writer l")
  case None
  have "\<forall>q. \<exists>k. contents w q = contents w q @ take k (pending l w q)"
    using None by (simp add: pending_def)
  with None show ?thesis
    by (cases "file' l") (simp_all add: retire_def flush_writer_def close_file_def static_def)
next
  case (Some b)
  from Flush_any [of b w] obtain b' w1 where
    f: "Flush b w = (b', w1)" "wfd b' = wfd b" "wbuf b' = [] \<or> werr b'" "same_desk w w1"
    "is_dir w1 = is_dir w"
    "\<forall>q. \<exists>k. contents w1 q = contents w q @ (if fds w (wfd b) = Some q then take k (wbuf b) else [])"
    by blast
  have ct: "\<forall>q. \<exists>k. contents w1 q = contents w q @ take k (pending l w q)"
  proof
    fix q
    from f(6) obtain k where
      "contents w1 q = contents w q @ (if fds w (wfd b) = Some q then take k (wbuf b) else [])"
      by blast
    then have "contents w1 q = contents w q @ take k (pending l w q)"
      using Some by (simp add: pending_def)
    then show "\<exists>k. contents w1 q = contents w q @ take k (pending l w q)" by blast
  qed
  define l1 where "l1 = l\<lparr>writer := Some b'\<rparr>"
  have r: "retire l w = (l1\<lparr>file' := None\<rparr>, close_file l1 w1)"
    using Some f(1) by (simp add: retire_def flush_writer_def l1_def)
  show ?thesis
    unfolding r using f(3-5) ct
    by (cases "file' l") (simp_all add: close_file_def l1_def static_def same_desk_def)
qed

lemma on_message_open_failed_any:
  assumes n: "needs_open l now" and x: "open_fails l w now oerr = Some e"
  shows "\<exists>l' w'. on_message l w now oerr msg = (None, l', w') \<and> static l l' \<and> file' l' = None \<and>
           currentDate l' = currentDate l \<and> (\<forall>b. writer l' = Some b \<longrightarrow> wbuf b = [] \<or> werr b) \<and>
           fds w' = (case file' l of None \<Rightarrow> fds w | Some f \<Rightarrow> (fds w)(f := None)) \<and>
           nextfd w' = nextfd w \<and> console w' = console w @ [OpenFailed e, Unsaved msg] \<and>
           opens w' = opens w @ [target l now] \<and> sweeps w' = sweeps w \<and> is_dir w' = is_dir w \<and>
           (\<forall>q. \<exists>k. contents w' q = contents w q @ take k (pending l w q))"
proof -
  from retire_any [of l w] obtain l2 w2 where
    r: "retire l w = (l2, w2)" "file' l2 = None" "static l l2" "currentDate l2 = currentDate l"
    "\<forall>b. writer l2 = Some b \<longrightarrow> wbuf b = [] \<or> werr b"
    "fds w2 = (case file' l of None \<Rightarrow> fds w | Some f \<Rightarrow> (fds w)(f := None))"
    "nextfd w2 = nextfd w" "console w2 = console w" "opens w2 = opens w" "sweeps w2 = sweeps w"
    "is_dir w2 = is_dir w" "\<forall>q. \<exists>k. contents w2 q = contents w q @ take k (pending l w q)"
    by blast
  have t: "target l2 now = target l now" using r(3) by (rule static_target)
  have x2: "open_fails l2 w2 now oerr = Some e"
    using x t r(11) by (cases oerr) (simp_all add: open_fails_def)
  define w' where "w' = Printf (Unsaved msg) (Printf (OpenFailed e) (w2\<lparr>opens := opens w2 @ [target l2 now]\<rparr>))"
  have res: "on_message l w now oerr msg = (None, l2, w')"
    using n r(1) openFile_failed [OF x2] by (simp add: on_message_def needs_open_def w'_def)
  have obs: "fds w' = (case file' l of None \<Rightarrow> fds w | Some f \<Rightarrow> (fds w)(f := None))"
    "nextfd w' = nextfd w" "console w' = console w @ [OpenFailed e, Unsaved msg]"
    "opens w' = opens w @ [target l now]" "sweeps w' = sweeps w" "is_dir w' = is_dir w"
    using r(6-11) t by (simp_all add: w'_def)
  have ct: "\<forall>q. \<exists>k. contents w' q = contents w q @ take k (pending l w q)"
    using r(12) by (simp add: w'_def)
  show ?thesis using res r(2-5) obs ct by blast
qed

lemma write_msg_any:
  assumes "writer l = Some b"
  shows "\<exists>l' w'. write_msg l w now msg = (None, l', w') \<and> static l l' \<and> file' l' = file' l \<and>
           currentDate l' = currentDate l \<and> same_desk w w' \<and> is_dir w' = is_dir w"
proof -
  from WriteString_any [of b "log_line now msg" w] obtain b' w' where
    "WriteString b (log_line now msg) w = (b', w')" "same_desk w w'" "is_dir w' = is_dir w"
    by blast
  then show ?thesis using assms by (simp add: write_msg_def log_line_def static_def)
qed

lemma on_message_same_day_any:
  assumes c: "consistent l w" and n: "\<not> needs_open l now"
  shows "\<exists>l' w'. on_message l w now oerr msg = (None, l', w') \<and> static l l' \<and> file' l' = file' l \<and>
           currentDate l' = currentDate l \<and> same_desk w w' \<and> is_dir w' = is_dir w"
proof -
  from n obtain f where f: "file' l = Some f" and d: "currentDate l = Format_20060102 now"
    by (auto simp add: needs_open_def)
  from c f obtain b where b: "writer l = Some b"
    by (cases "writer l") (simp_all add: consistent_def)
  have "on_message l w now oerr msg = write_msg l w now msg"
    using f d by (simp add: on_message_def)
  then show ?thesis using write_msg_any [OF b, of w now msg] by simp
qed

lemma on_message_rotate_any:
  assumes n: "needs_open l now" and x: "open_fails l w now oerr = None"
  shows "\<exists>l' w'. on_message l w now oerr msg = (None, l', w') \<and> static l l' \<and>
           file' l' = Some (nextfd w) \<and> currentDate l' = Format_20060102 now \<and>
           fds w' = (case file' l of None \<Rightarrow> fds w | Some f \<Rightarrow> (fds w)(f := None))
                      (nextfd w \<mapsto> target l now) \<and>
           nextfd w' = nextfd w + 1 \<and> console w' = console w @ [DateChanged (Format_20060102 now)] \<and>
           opens w' = opens w @ [target l now] \<and> sweeps w' = sweeps w + 1 \<and> is_dir w' = is_dir w"
proof -
  from x have oe: "oerr = None" and nd: "\<not> is_dir w (target l now)"
    by (auto simp add: open_fails_def split: option.splits if_splits)
  from retire_any [of l w] obtain l2 w2 where
    r: "retire l w = (l2, w2)" "file' l2 = None" "static l l2" "currentDate l2 = currentDate l"
    "fds w2 = (case file' l of None \<Rightarrow> fds w | Some f \<Rightarrow> (fds w)(f := None))"
    "nextfd w2 = nextfd w" "console w2 = console w" "opens w2 = opens w" "sweeps w2 = sweeps w"
    "is_dir w2 = is_dir w"
    by blast
  have t: "target l2 now = target l now" using r(3) by (rule static_target)
  have nd2: "\<not> is_dir w2 (target l2 now)" unfolding t using nd r(10) by simp
  define l3 where "l3 = l2\<lparr>file' := Some (nextfd w2), writer := Some (NewWriter (nextfd w2)),
                      currentDate := Format_20060102 now\<rparr>"
  from openFile_ok [OF nd2] obtain w3 where
    o: "openFile l2 now None w2 = (None, l3, w3)"
    "fds w3 = (fds w2)(nextfd w2 \<mapsto> target l2 now)" "nextfd w3 = nextfd w2 + 1" "console w3 = console w2"
    "opens w3 = opens w2 @ [target l2 now]" "sweeps w3 = sweeps w2" "is_dir w3 = is_dir w2"
    unfolding l3_def by blast
  define w4 where "w4 = (Printf (DateChanged (currentDate l3)) w3)\<lparr>sweeps := sweeps w3 + 1\<rparr>"
  have res: "on_message l w now oerr msg = write_msg l3 w4 now msg"
    using n r(1) o(1) oe by (simp add: on_message_def needs_open_def w4_def)
  have wr: "writer l3 = Some (NewWriter (nextfd w2))" by (simp add: l3_def)
  from write_msg_any [OF wr, of w4 now msg] obtain l' w' where
    m: "write_msg l3 w4 now msg = (None, l', w')" "static l3 l'" "file' l' = file' l3"
    "currentDate l' = currentDate l3" "same_desk w4 w'" "is_dir w' = is_dir w4"
    by blast
  have st: "static l l'" using r(3) m(2) by (simp add: static_def l3_def)
  have f': "file' l' = Some (nextfd w)" "currentDate l' = Format_20060102 now"
    using m(3,4) r(6) by (simp_all add: l3_def)
  have obs: "fds w' = (case file' l of None \<Rightarrow> fds w | Some f \<Rightarrow> (fds w)(f := None))
                      (nextfd w \<mapsto> target l now)"
    "nextfd w' = nextfd w + 1" "console w' = console w @ [DateChanged (Format_20060102 now)]"
    "opens w' = opens w @ [target l now]" "sweeps w' = sweeps w + 1" "is_dir w' = is_dir w"
    using m(5,6) o(2-7) r(5-10) t by (simp_all add: same_desk_def w4_def l3_def)
  show ?thesis unfolding res using m(1) st f' obs by blast
qed

lemma on_tick_idle:
  assumes "\<forall>b. writer l = Some b \<longrightarrow> wbuf b = [] \<or> werr b"
  shows "on_tick l w = (l, w)"
proof (cases "writer l")
  case None
  then show ?thesis by (simp add: on_tick_def)
next
  case (Some b)
  with assms have "wbuf b = [] \<or> werr b" by simp
  then have "Flush b w = (b, w)" by (auto simp add: Flush_def)
  moreover have "l\<lparr>writer := Some b\<rparr> = l" using Some by simp
  ultimately show ?thesis using Some by (simp add: on_tick_def)
qed

section \<open>Shutdown\<close>

lemma ex_dates:
  "Format_20060102 ex_now = ''20250415''" "Format_20060102 ex_later = ''20250415''"
  "Format_20060102 ex_next_day = ''20250416''"
  by (simp_all add: Format_20060102_def appendInt_def digits.simps digit_chars ex_now_def ex_later_def
      ex_next_day_def)

lemma ex_stamps:
  "Format_stamp ex_now = ''2025-04-15 09:05:07''" "Format_stamp ex_later = ''2025-04-15 09:05:09''"
  "Format_stamp ex_next_day = ''2025-04-16 00:00:02''"
  by (simp_all add: Format_stamp_def appendInt_def digits.simps digit_chars ex_now_def ex_later_def
      ex_next_day_def)

lemma wg_Done_obs [simp]:
  "consistent (wg_Done l) w = consistent l w" "healthy (wg_Done l) w = healthy l w"
  "logical (wg_Done l) w = logical l w"
  "msgChan (wg_Done l) = msgChan l" "wg (wg_Done l) = wg l - 1" "file' (wg_Done l) = file' l"
  "writer (wg_Done l) = writer l"
  by (simp_all add: wg_Done_def consistent_def healthy_def logical_def pending_def current_path_def
      fun_eq_iff split: option.splits)




lemma ex_consistent: "consistent (ex_queued msgs) ex_disk"
  by (simp add: consistent_def ex_queued_def ex_start_def ex_disk_def NewWriter_def current_path_def Join_def)

lemma ex_healthy: "healthy (ex_queued msgs) ex_disk"
  by (simp add: healthy_def is_file_def ex_queued_def ex_start_def ex_disk_def current_path_def Join_def)

lemmas ex_state_defs = ex_queued_def ex_start_def ex_disk_def make_chan_def NewWriter_def

lemmas run_defs = closeFn_def close_chan_def worker_def runWorker_def recv_def on_message_def
  on_tick_def write_msg_def retire_def flush_writer_def close_file_def Flush_def WriteString_def
  os_Write_def os_Close_def openFile_def os_OpenFile_def Printf_def wg_Done_def recovered_def
  Join_def contents_def Let_def

lemma cx_closeFn:
  "closeFn Running (ex_queued [''hello'']) ex_disk cx_sched =
        Ok (Exited,
            \<lparr>msgChan = \<lparr>buf = [], cap = 1000, closed = True\<rparr>, wg = 0, file' = None,
             writer = Some \<lparr>wfd = 3, wbuf = [], werr = False\<rparr>,
             dirPath = ''log'', filePrefix = ''AppLog'', currentDate = ''20250415'', retentionDays = 30\<rparr>,
            \<lparr>entries = [((''log'', ''AppLog_20250415.txt''), File [])],
             fds = [3 \<mapsto> (''log'', ''AppLog_20250415.txt'')](3 := None), nextfd = 4,
             console = [Started ''AppLog'' 30, OpenFailed ''disk full'', Unsaved ''hello'', Stopped ''AppLog''],
             opens = [(''log'', ''AppLog_20250415.txt''), (''log'', ''AppLog_20250416.txt'')], sweeps = 0,
             replies = [], busy = []\<rparr>)"
  by (simp add: cx_sched_def ex_state_defs run_defs ex_dates)


text \<open>
  Two more inputs on which a drained message is in no file, here without any report. The
  device fails the first write: the flush of the ticker case writes nothing, its error is
  dropped and stays with the writer, so that the flush of \<^verbatim>\<open>shutdown\<close> does nothing. The
  open file was removed from the directory: the flush succeeds and its bytes go to a file
  no name reaches. In both \<^verbatim>\<open>shutdown\<close> returns and prints its line.
\<close>

lemma ex_lost_on_failed_write:
  "closeFn Running (ex_queued [''hello'']) (ex_disk\<lparr>replies := [Some 0]\<rparr>) [Recv ex_later None, Tick, Recv ex_later None] =
        Ok (Exited,
            \<lparr>msgChan = \<lparr>buf = [], cap = 1000, closed = True\<rparr>, wg = 0, file' = Some 3,
             writer = Some \<lparr>wfd = 3, wbuf = ''[2025-04-15 09:05:09] hello'' @ [CHR 0x0A], werr = True\<rparr>,
             dirPath = ''log'', filePrefix = ''AppLog'', currentDate = ''20250415'', retentionDays = 30\<rparr>,
            \<lparr>entries = [((''log'', ''AppLog_20250415.txt''), File [])],
             fds = [3 \<mapsto> (''log'', ''AppLog_20250415.txt'')](3 := None), nextfd = 4,
             console = [Started ''AppLog'' 30, Stopped ''AppLog''],
             opens = [(''log'', ''AppLog_20250415.txt'')], sweeps = 0, replies = [], busy = []\<rparr>)"
  by (simp add: ex_state_defs run_defs ex_dates ex_stamps)

lemma ex_lost_when_removed:
  "closeFn Running (ex_queued [''hello'']) (ex_disk\<lparr>entries := []\<rparr>) [Recv ex_later None, Tick, Recv ex_later None] =
        Ok (Exited,
            \<lparr>msgChan = \<lparr>buf = [], cap = 1000, closed = True\<rparr>, wg = 0, file' = Some 3,
             writer = Some \<lparr>wfd = 3, wbuf = [], werr = False\<rparr>,
             dirPath = ''log'', filePrefix = ''AppLog'', currentDate = ''20250415'', retentionDays = 30\<rparr>,
            \<lparr>entries = [],
             fds = [3 \<mapsto> (''log'', ''AppLog_20250415.txt'')](3 := None), nextfd = 4,
             console = [Started ''AppLog'' 30, Stopped ''AppLog''],
             opens = [(''log'', ''AppLog_20250415.txt'')], sweeps = 0, replies = [], busy = []\<rparr>)"
  by (simp add: ex_state_defs run_defs ex_dates ex_stamps)



section \<open>A failed open\<close>

text \<open>
  Claim C2. When the rotation check of a received message needs a file and the open fails,
  the worker's loop goes on with the rest of its schedule from a state in which: the two
  reports (the error, the unsaved message) were printed and nothing panicked; no file
  holds the message, since every file holds what it held, followed at most by bytes the
  writer had buffered for it before; \<^verbatim>\<open>os.OpenFile\<close> was called once; no file is open, so
  that a ticker case changes nothing and calls no open, while every later message needs
  an open again. All this holds whatever the flush of the old file meets. When that
  flush succeeds (\<open>healthy\<close>), the disk holds exactly what was written or buffered before,
  the buffer is empty and the logger is consistent.
\<close>

theorem C2_failed_open_skips_message:
  assumes "consistent l w" "recv (msgChan l) = Got msg ch" "needs_open l now"
    "open_fails l w now oerr = Some e"
  shows "\<exists>l' w'. (\<forall>es. worker_loop l w (Recv now oerr # es) = worker_loop l' w' es) \<and>
           msgChan l' = ch \<and> file' l' = None \<and>
           console w' = console w @ [OpenFailed e, Unsaved msg] \<and>
           (\<forall>q. \<exists>k. contents w' q = contents w q @ take k (pending l w q)) \<and>
           opens w' = opens w @ [target l now] \<and>
           on_tick l' w' = (l', w') \<and> (\<forall>now'. needs_open l' now') \<and>
           (healthy l w \<longrightarrow>
              consistent l' w' \<and> (\<forall>q. contents w' q = logical l w q) \<and> buffered l' = [])"
proof -
  define l0 where "l0 = l\<lparr>msgChan := ch\<rparr>"
  have c0: "consistent l0 w" and n0: "needs_open l0 now" "open_fails l0 w now oerr = Some e"
    using assms by (simp_all add: l0_def)
  from on_message_open_failed_any [OF n0, of msg] obtain l' w' where
    r: "on_message l0 w now oerr msg = (None, l', w')" "static l0 l'" "file' l' = None"
    "\<forall>b. writer l' = Some b \<longrightarrow> wbuf b = [] \<or> werr b"
    "console w' = console w @ [OpenFailed e, Unsaved msg]" "opens w' = opens w @ [target l0 now]"
    "\<forall>q. \<exists>k. contents w' q = contents w q @ take k (pending l0 w q)"
    by blast
  have loop: "\<forall>es. worker_loop l w (Recv now oerr # es) = worker_loop l' w' es"
    using assms(2) r(1) by (simp add: l0_def)
  have ch: "msgChan l' = ch" using r(2) by (simp add: static_def l0_def)
  have tk: "on_tick l' w' = (l', w')" using r(4) by (rule on_tick_idle)
  have no: "\<forall>now'. needs_open l' now'" using r(3) by (simp add: needs_open_def)
  have ct: "\<forall>q. \<exists>k. contents w' q = contents w q @ take k (pending l w q)"
    and op: "opens w' = opens w @ [target l now]"
    using r(6,7) by (simp_all add: l0_def)
  have hp: "healthy l w \<longrightarrow>
              consistent l' w' \<and> (\<forall>q. contents w' q = logical l w q) \<and> buffered l' = []"
  proof
    assume "healthy l w"
    then have h0: "healthy l0 w" by (simp add: l0_def)
    from on_message_open_failed [OF c0 h0 n0, of msg] obtain l2 w2 where
      s: "on_message l0 w now oerr msg = (None, l2, w2)" "consistent l2 w2" "file' l2 = None"
      "\<forall>q. contents w2 q = logical l0 w q"
      by blast
    from r(1) s(1) have e: "l2 = l'" "w2 = w'" by simp_all
    have bf: "buffered l' = []"
      using s(2,3) unfolding e by (cases "writer l'") (simp_all add: buffered_def consistent_def)
    show "consistent l' w' \<and> (\<forall>q. contents w' q = logical l w q) \<and> buffered l' = []"
      using s(2,4) bf unfolding e by (simp add: l0_def)
  qed
  show ?thesis
    using loop ch r(3,5) ct op tk no hp by blast
qed


theorem C2_failed_open_skips_message_witness:
  "consistent (ex_queued [''hello'']) ex_disk \<and> healthy (ex_queued [''hello'']) ex_disk \<and>
   recv (msgChan (ex_queued [''hello''])) = Got ''hello'' (msgChan (ex_queued [])) \<and>
   needs_open (ex_queued [''hello'']) ex_next_day \<and>
   open_fails (ex_queued [''hello'']) ex_disk ex_next_day (Some ''disk full'') = Some ''disk full'' \<and>
   (\<exists>l' w'. worker_loop (ex_queued [''hello'']) ex_disk [Recv ex_next_day (Some ''disk full'')] =
               (Waiting, l', w') \<and>
      msgChan l' = msgChan (ex_queued []) \<and> file' l' = None \<and>
      console w' = [Started ''AppLog'' 30, OpenFailed ''disk full'', Unsaved ''hello''] \<and>
      contents w' (''log'', ''AppLog_20250415.txt'') = [] \<and>
      contents w' (''log'', ''AppLog_20250416.txt'') = [] \<and>
      opens w' = [(''log'', ''AppLog_20250415.txt''), (''log'', ''AppLog_20250416.txt'')])"
proof -
  let ?l = "ex_queued [''hello'']"
  have h: "consistent ?l ex_disk" "recv (msgChan ?l) = Got ''hello'' (msgChan (ex_queued []))"
    "needs_open ?l ex_next_day" "open_fails ?l ex_disk ex_next_day (Some ''disk full'') = Some ''disk full''"
    by (simp_all add: ex_consistent)
      (simp_all add: ex_state_defs recv_def needs_open_def ex_dates open_fails_def)
  from C2_failed_open_skips_message [OF h] obtain l' w' where
    r: "\<forall>es. worker_loop ?l ex_disk (Recv ex_next_day (Some ''disk full'') # es) = worker_loop l' w' es"
    "msgChan l' = msgChan (ex_queued [])" "file' l' = None"
    "console w' = console ex_disk @ [OpenFailed ''disk full'', Unsaved ''hello'']"
    "healthy ?l ex_disk \<longrightarrow>
       consistent l' w' \<and> (\<forall>q. contents w' q = logical ?l ex_disk q) \<and> buffered l' = []"
    "opens w' = opens ex_disk @ [target ?l ex_next_day]"
    by blast
  have hl: "healthy ?l ex_disk" by (rule ex_healthy)
  with r(5) have r5: "\<forall>q. contents w' q = logical ?l ex_disk q" by blast
  from r(1) have "worker_loop ?l ex_disk [Recv ex_next_day (Some ''disk full'')] = (Waiting, l', w')"
    by simp
  moreover have "console w' = [Started ''AppLog'' 30, OpenFailed ''disk full'', Unsaved ''hello'']"
    using r(4) by (simp add: ex_disk_def)
  moreover have "contents w' (''log'', ''AppLog_20250415.txt'') = []"
    "contents w' (''log'', ''AppLog_20250416.txt'') = []"
    using r5 by (simp_all add: logical_def pending_def contents_def ex_state_defs)
  moreover have "opens w' = [(''log'', ''AppLog_20250415.txt''), (''log'', ''AppLog_20250416.txt'')]"
    using r(6) by (simp add: target_def Join_def ex_state_defs ex_dates)
  ultimately show ?thesis using h hl r(2,3) by blast
qed

section \<open>Rotation\<close>

text \<open>
  Claim C5. For a received message, when no file is open or the date of the clock differs
  from \<open>currentDate\<close>: the writer is flushed and the old descriptor is closed;
  \<^verbatim>\<open>os.OpenFile\<close> is called once, for the file of the current date. When the open
  succeeds, the new descriptor is the logger's file, \<open>currentDate\<close> is the current date,
  one sweep was started with \<^verbatim>\<open>go\<close> (it is counted, and the same step goes on to write
  the message without waiting for it) and the change is printed. When the open fails,
  \<open>currentDate\<close> stays and no sweep is started. When the file is open and the date is the
  same, nothing is opened, closed or started. All this holds whatever the writes meet.
  When they succeed (\<open>healthy\<close>), what the writer had buffered is on disk in the old file
  after the flush, and the message's line is the new file's.
\<close>

theorem C5_rotation_on_message:
  "(consistent l w \<and> needs_open l now \<and> open_fails l w now oerr = None \<longrightarrow>
      (\<exists>l' w'. on_message l w now oerr msg = (None, l', w') \<and>
         file' l' = Some (nextfd w) \<and> currentDate l' = Format_20060102 now \<and>
         fds w' = (case file' l of None \<Rightarrow> fds w | Some f \<Rightarrow> (fds w)(f := None))
                    (nextfd w \<mapsto> Join (dirPath l) (filePrefix l @ ''_'' @ Format_20060102 now @ ''.txt'')) \<and>
         (healthy l w \<longrightarrow>
            (\<forall>q. q \<noteq> target l now \<longrightarrow> contents w' q = logical l w q) \<and>
            logical l' w' (target l now) = logical l w (target l now) @ log_line now msg) \<and>
         opens w' = opens w @ [target l now] \<and> sweeps w' = sweeps w + 1 \<and>
         console w' = console w @ [DateChanged (Format_20060102 now)])) \<and>
   (consistent l w \<and> needs_open l now \<and> open_fails l w now oerr = Some e \<longrightarrow>
      (\<exists>l' w'. on_message l w now oerr msg = (None, l', w') \<and>
         file' l' = None \<and> currentDate l' = currentDate l \<and>
         fds w' = (case file' l of None \<Rightarrow> fds w | Some f \<Rightarrow> (fds w)(f := None)) \<and>
         (healthy l w \<longrightarrow> (\<forall>q. contents w' q = logical l w q)) \<and>
         opens w' = opens w @ [target l now] \<and> sweeps w' = sweeps w)) \<and>
   (consistent l w \<and> \<not> needs_open l now \<longrightarrow>
      (\<exists>l' w'. on_message l w now oerr msg = (None, l', w') \<and>
         file' l' = file' l \<and> currentDate l' = currentDate l \<and>
         fds w' = fds w \<and> opens w' = opens w \<and> sweeps w' = sweeps w))"
proof (intro conjI impI)
  assume a: "consistent l w \<and> needs_open l now \<and> open_fails l w now oerr = None"
  then have c: "consistent l w" and n: "needs_open l now" and x: "open_fails l w now oerr = None"
    by simp_all
  from on_message_rotate_any [OF n x, of msg] obtain l' w' where
    r: "on_message l w now oerr msg = (None, l', w')" "file' l' = Some (nextfd w)"
    "currentDate l' = Format_20060102 now"
    "fds w' = (case file' l of None \<Rightarrow> fds w | Some f \<Rightarrow> (fds w)(f := None)) (nextfd w \<mapsto> target l now)"
    "console w' = console w @ [DateChanged (Format_20060102 now)]"
    "opens w' = opens w @ [target l now]" "sweeps w' = sweeps w + 1"
    by blast
  have fd: "fds w' = (case file' l of None \<Rightarrow> fds w | Some f \<Rightarrow> (fds w)(f := None))
                    (nextfd w \<mapsto> Join (dirPath l) (filePrefix l @ ''_'' @ Format_20060102 now @ ''.txt''))"
    using r(4) by (simp add: target_def)
  have hp: "healthy l w \<longrightarrow>
            (\<forall>q. q \<noteq> target l now \<longrightarrow> contents w' q = logical l w q) \<and>
            logical l' w' (target l now) = logical l w (target l now) @ log_line now msg"
  proof
    assume h: "healthy l w"
    from on_message_rotate [OF c h n x, of msg] obtain l2 w2 where
      s: "on_message l w now oerr msg = (None, l2, w2)"
      "\<forall>q. logical l2 w2 q = logical l w q @ (if q = target l now then log_line now msg else [])"
      "\<forall>q. q \<noteq> target l now \<longrightarrow> contents w2 q = logical l w q"
      by blast
    from r(1) s(1) have e: "l2 = l'" "w2 = w'" by simp_all
    have "logical l' w' (target l now) = logical l w (target l now) @ log_line now msg"
      using s(2) unfolding e by simp
    with s(3) show "(\<forall>q. q \<noteq> target l now \<longrightarrow> contents w' q = logical l w q) \<and>
            logical l' w' (target l now) = logical l w (target l now) @ log_line now msg"
      unfolding e by simp
  qed
  show "\<exists>l' w'. on_message l w now oerr msg = (None, l', w') \<and>
         file' l' = Some (nextfd w) \<and> currentDate l' = Format_20060102 now \<and>
         fds w' = (case file' l of None \<Rightarrow> fds w | Some f \<Rightarrow> (fds w)(f := None))
                    (nextfd w \<mapsto> Join (dirPath l) (filePrefix l @ ''_'' @ Format_20060102 now @ ''.txt'')) \<and>
         (healthy l w \<longrightarrow>
            (\<forall>q. q \<noteq> target l now \<longrightarrow> contents w' q = logical l w q) \<and>
            logical l' w' (target l now) = logical l w (target l now) @ log_line now msg) \<and>
         opens w' = opens w @ [target l now] \<and> sweeps w' = sweeps w + 1 \<and>
         console w' = console w @ [DateChanged (Format_20060102 now)]"
    using r(1,2,3,5,6,7) fd hp by blast
next
  assume a: "consistent l w \<and> needs_open l now \<and> open_fails l w now oerr = Some e"
  then have c: "consistent l w" and n: "needs_open l now" and x: "open_fails l w now oerr = Some e"
    by simp_all
  from on_message_open_failed_any [OF n x, of msg] obtain l' w' where
    r: "on_message l w now oerr msg = (None, l', w')" "file' l' = None"
    "currentDate l' = currentDate l"
    "fds w' = (case file' l of None \<Rightarrow> fds w | Some f \<Rightarrow> (fds w)(f := None))"
    "opens w' = opens w @ [target l now]" "sweeps w' = sweeps w"
    by blast
  have hp: "healthy l w \<longrightarrow> (\<forall>q. contents w' q = logical l w q)"
  proof
    assume h: "healthy l w"
    from on_message_open_failed [OF c h n x, of msg] obtain l2 w2 where
      s: "on_message l w now oerr msg = (None, l2, w2)" "\<forall>q. contents w2 q = logical l w q"
      by blast
    from r(1) s(1) have e: "l2 = l'" "w2 = w'" by simp_all
    from s(2) show "\<forall>q. contents w' q = logical l w q" unfolding e .
  qed
  show "\<exists>l' w'. on_message l w now oerr msg = (None, l', w') \<and>
         file' l' = None \<and> currentDate l' = currentDate l \<and>
         fds w' = (case file' l of None \<Rightarrow> fds w | Some f \<Rightarrow> (fds w)(f := None)) \<and>
         (healthy l w \<longrightarrow> (\<forall>q. contents w' q = logical l w q)) \<and>
         opens w' = opens w @ [target l now] \<and> sweeps w' = sweeps w"
    using r hp by blast
next
  assume a: "consistent l w \<and> \<not> needs_open l now"
  then have c: "consistent l w" and n: "\<not> needs_open l now" by simp_all
  from on_message_same_day_any [OF c n, of oerr msg] obtain l' w' where
    "on_message l w now oerr msg = (None, l', w')" "file' l' = file' l"
    "currentDate l' = currentDate l" "same_desk w w'"
    by blast
  then show "\<exists>l' w'. on_message l w now oerr msg = (None, l', w') \<and>
         file' l' = file' l \<and> currentDate l' = currentDate l \<and>
         fds w' = fds w \<and> opens w' = opens w \<and> sweeps w' = sweeps w"
    by (simp add: same_desk_def)
qed


lemma ex_needs_open:
  "needs_open (ex_queued msgs) ex_next_day" "\<not> needs_open (ex_queued msgs) ex_later"
  by (simp_all add: needs_open_def ex_state_defs ex_dates)

lemma ex_open_fails:
  "open_fails (ex_queued msgs) ex_disk ex_next_day None = None"
  "open_fails (ex_queued msgs) ex_disk ex_next_day (Some ''disk full'') = Some ''disk full''"
  by (simp_all add: open_fails_def is_dir_def target_def Join_def ex_state_defs ex_dates)

lemma ex_paths:
  "target (ex_queued msgs) ex_next_day = (''log'', ''AppLog_20250416.txt'')"
  "target (ex_queued msgs) ex_later = (''log'', ''AppLog_20250415.txt'')"
  "dirPath (ex_queued msgs) = ''log''" "filePrefix (ex_queued msgs) = ''AppLog''"
  "file' (ex_queued msgs) = Some 3" "currentDate (ex_queued msgs) = ''20250415''"
  by (simp_all add: target_def Join_def ex_state_defs ex_dates)

lemma ex_logical: "logical (ex_queued msgs) ex_disk q = []"
  by (simp add: logical_def pending_def contents_def ex_state_defs)

theorem C5_rotation_on_message_witness:
  "consistent (ex_queued []) ex_disk \<and> healthy (ex_queued []) ex_disk \<and> needs_open (ex_queued []) ex_next_day \<and>
   \<not> needs_open (ex_queued []) ex_later \<and>
   open_fails (ex_queued []) ex_disk ex_next_day None = None \<and>
   open_fails (ex_queued []) ex_disk ex_next_day (Some ''disk full'') = Some ''disk full'' \<and>
   (\<exists>l' w'. on_message (ex_queued []) ex_disk ex_next_day None ''bye'' = (None, l', w') \<and>
      file' l' = Some 4 \<and> currentDate l' = ''20250416'' \<and>
      fds w' 3 = None \<and> fds w' 4 = Some (''log'', ''AppLog_20250416.txt'') \<and>
      contents w' (''log'', ''AppLog_20250415.txt'') = [] \<and>
      logical l' w' (''log'', ''AppLog_20250416.txt'') = ''[2025-04-16 00:00:02] bye'' @ [CHR 0x0A] \<and>
      opens w' = [(''log'', ''AppLog_20250415.txt''), (''log'', ''AppLog_20250416.txt'')] \<and>
      sweeps w' = 1 \<and> console w' = [Started ''AppLog'' 30, DateChanged ''20250416'']) \<and>
   (\<exists>l' w'. on_message (ex_queued []) ex_disk ex_next_day (Some ''disk full'') ''bye'' = (None, l', w') \<and>
      file' l' = None \<and> currentDate l' = ''20250415'' \<and> fds w' 3 = None \<and>
      opens w' = [(''log'', ''AppLog_20250415.txt''), (''log'', ''AppLog_20250416.txt'')] \<and>
      sweeps w' = 0) \<and>
   (\<exists>l' w'. on_message (ex_queued []) ex_disk ex_later None ''bye'' = (None, l', w') \<and>
      file' l' = Some 3 \<and> currentDate l' = ''20250415'' \<and>
      fds w' 3 = Some (''log'', ''AppLog_20250415.txt'') \<and>
      opens w' = [(''log'', ''AppLog_20250415.txt'')] \<and> sweeps w' = 0)"
proof -
  let ?l = "ex_queued []"
  note t1 = C5_rotation_on_message [where l = ?l and w = ex_disk and now = ex_next_day and oerr = None
      and msg = "''bye''" and e = "''disk full''"]
  note t2 = C5_rotation_on_message [where l = ?l and w = ex_disk and now = ex_next_day
      and oerr = "Some ''disk full''" and msg = "''bye''" and e = "''disk full''"]
  note t3 = C5_rotation_on_message [where l = ?l and w = ex_disk and now = ex_later and oerr = None
      and msg = "''bye''" and e = "''disk full''"]
  have h: "consistent ?l ex_disk" "needs_open ?l ex_next_day" "\<not> needs_open ?l ex_later"
    "open_fails ?l ex_disk ex_next_day None = None"
    "open_fails ?l ex_disk ex_next_day (Some ''disk full'') = Some ''disk full''"
    by (simp_all add: ex_consistent ex_needs_open ex_open_fails)
  from t1 h(1,2,4) obtain l1 w1 where
    r1: "on_message ?l ex_disk ex_next_day None ''bye'' = (None, l1, w1)" "file' l1 = Some (nextfd ex_disk)"
    "currentDate l1 = Format_20060102 ex_next_day"
    "fds w1 = (case file' ?l of None \<Rightarrow> fds ex_disk | Some f \<Rightarrow> (fds ex_disk)(f := None))
                (nextfd ex_disk \<mapsto> Join (dirPath ?l) (filePrefix ?l @ ''_'' @ Format_20060102 ex_next_day @ ''.txt''))"
    "healthy ?l ex_disk \<longrightarrow>
       (\<forall>q. q \<noteq> target ?l ex_next_day \<longrightarrow> contents w1 q = logical ?l ex_disk q) \<and>
       logical l1 w1 (target ?l ex_next_day) =
         logical ?l ex_disk (target ?l ex_next_day) @ log_line ex_next_day ''bye''"
    "opens w1 = opens ex_disk @ [target ?l ex_next_day]" "sweeps w1 = sweeps ex_disk + 1"
    "console w1 = console ex_disk @ [DateChanged (Format_20060102 ex_next_day)]"
    by blast
  have hl: "healthy ?l ex_disk" by (rule ex_healthy)
  with r1(5) have r1h: "\<forall>q. q \<noteq> target ?l ex_next_day \<longrightarrow> contents w1 q = logical ?l ex_disk q"
    "logical l1 w1 (target ?l ex_next_day) =
       logical ?l ex_disk (target ?l ex_next_day) @ log_line ex_next_day ''bye''"
    by blast+
  have a1: "file' l1 = Some 4 \<and> currentDate l1 = ''20250416'' \<and>
      fds w1 3 = None \<and> fds w1 4 = Some (''log'', ''AppLog_20250416.txt'') \<and>
      contents w1 (''log'', ''AppLog_20250415.txt'') = [] \<and>
      logical l1 w1 (''log'', ''AppLog_20250416.txt'') = ''[2025-04-16 00:00:02] bye'' @ [CHR 0x0A] \<and>
      opens w1 = [(''log'', ''AppLog_20250415.txt''), (''log'', ''AppLog_20250416.txt'')] \<and>
      sweeps w1 = 1 \<and> console w1 = [Started ''AppLog'' 30, DateChanged ''20250416'']"
    using r1(2-4,6-8) r1h unfolding ex_paths ex_logical
    by (simp add: ex_disk_def ex_dates Join_def log_line_def ex_stamps)
  from t2 h(1,2,5) obtain l2 w2 where
    r2: "on_message ?l ex_disk ex_next_day (Some ''disk full'') ''bye'' = (None, l2, w2)" "file' l2 = None"
    "currentDate l2 = currentDate ?l"
    "fds w2 = (case file' ?l of None \<Rightarrow> fds ex_disk | Some f \<Rightarrow> (fds ex_disk)(f := None))"
    "opens w2 = opens ex_disk @ [target ?l ex_next_day]" "sweeps w2 = sweeps ex_disk"
    by blast
  have a2: "file' l2 = None \<and> currentDate l2 = ''20250415'' \<and> fds w2 3 = None \<and>
      opens w2 = [(''log'', ''AppLog_20250415.txt''), (''log'', ''AppLog_20250416.txt'')] \<and> sweeps w2 = 0"
    using r2(2-6) unfolding ex_paths by (simp add: ex_disk_def)
  from t3 h(1,3) obtain l3 w3 where
    r3: "on_message ?l ex_disk ex_later None ''bye'' = (None, l3, w3)" "file' l3 = file' ?l"
    "currentDate l3 = currentDate ?l" "fds w3 = fds ex_disk" "opens w3 = opens ex_disk"
    "sweeps w3 = sweeps ex_disk"
    by blast
  have a3: "file' l3 = Some 3 \<and> currentDate l3 = ''20250415'' \<and>
      fds w3 3 = Some (''log'', ''AppLog_20250415.txt'') \<and>
      opens w3 = [(''log'', ''AppLog_20250415.txt'')] \<and> sweeps w3 = 0"
    using r3(2-6) unfolding ex_paths by (simp add: ex_disk_def)
  show ?thesis using h hl r1(1) a1 r2(1) a2 r3(1) a3 by blast
qed


section \<open>The line and the file name\<close>

lemma length_Format_stamp:
  assumes "in_range now" "hour now < 24" "minute now < 60" "second now < 60"
  shows "length (Format_stamp now) = 19"
proof -
  have y: "nat (year now) < 10 ^ 4" "0 \<le> year now"
    using assms(1) unfolding in_range_def by auto
  have "day now \<le> 31"
    using assms(1) daysIn_bounds [of "month now" "year now"] unfolding in_range_def valid_date_def by auto
  then have d: "day now < 10 ^ 2" by simp
  have m: "month now < 10 ^ 2" using assms(1) unfolding in_range_def valid_date_def by auto
  have c: "hour now < 10 ^ 2" "minute now < 10 ^ 2" "second now < 10 ^ 2" using assms(2-4) by simp_all
  show ?thesis
    using y(2) length_zpad [OF _ y(1)] length_zpad [OF _ m] length_zpad [OF _ d]
      length_zpad [OF _ c(1)] length_zpad [OF _ c(2)] length_zpad [OF _ c(3)]
    by (simp add: Format_stamp_def appendInt_zpad)
qed

text \<open>
  Claim C6. A message is persisted when its rotation check needs no open or the open
  succeeds, and its write goes through (\<open>healthy\<close>). The file the logger then has open is
  named \<open>{filePrefix}_{currentDate}.txt\<close> in the stream's directory, and what that file
  holds (on disk, then in the writer's buffer) grows by exactly
  \<open>[\<close>\<^verbatim>\<open>YYYY-MM-DD HH:MM:SS\<close>\<open>] msg\<close> and a newline, the message's bytes unchanged; no other
  file changes. \<open>currentDate\<close> is set by \<^verbatim>\<open>openFile\<close> only, to the date of the clock it was
  called with, and that call opens the file of that name. For a calendar date with a
  four-digit year the stamp has 19 bytes and the date 8.
\<close>

theorem C6_line_and_file_name:
  "(consistent l w \<and> (\<not> needs_open l now \<or> open_fails l w now oerr = None) \<longrightarrow>
      (\<exists>l' w' f. on_message l w now oerr msg = (None, l', w') \<and> file' l' = Some f \<and>
         fds w' f = Some (Join (dirPath l) (filePrefix l @ ''_'' @ currentDate l' @ ''.txt'')) \<and>
         currentDate l' = (if needs_open l now then Format_20060102 now else currentDate l) \<and>
         (healthy l w \<longrightarrow>
            (\<forall>q. logical l' w' q =
                 logical l w q @
                 (if q = Join (dirPath l) (filePrefix l @ ''_'' @ currentDate l' @ ''.txt'')
                  then ''['' @ Format_stamp now @ ''] '' @ msg @ [CHR 0x0A] else []))))) \<and>
   (openFile l t oe w = (None, l1, w1) \<longrightarrow>
      (\<exists>f. file' l1 = Some f \<and>
         fds w1 f = Some (Join (dirPath l) (filePrefix l @ ''_'' @ Format_20060102 t @ ''.txt'')) \<and>
         currentDate l1 = Format_20060102 t)) \<and>
   (in_range now \<and> hour now < 24 \<and> minute now < 60 \<and> second now < 60 \<longrightarrow>
      length (Format_stamp now) = 19 \<and> length (Format_20060102 now) = 8)"
proof (intro conjI impI)
  assume a: "consistent l w \<and> (\<not> needs_open l now \<or> open_fails l w now oerr = None)"
  then have c: "consistent l w" by simp
  show "\<exists>l' w' f. on_message l w now oerr msg = (None, l', w') \<and> file' l' = Some f \<and>
         fds w' f = Some (Join (dirPath l) (filePrefix l @ ''_'' @ currentDate l' @ ''.txt'')) \<and>
         currentDate l' = (if needs_open l now then Format_20060102 now else currentDate l) \<and>
         (healthy l w \<longrightarrow>
            (\<forall>q. logical l' w' q =
                 logical l w q @
                 (if q = Join (dirPath l) (filePrefix l @ ''_'' @ currentDate l' @ ''.txt'')
                  then ''['' @ Format_stamp now @ ''] '' @ msg @ [CHR 0x0A] else [])))"
  proof (cases "needs_open l now")
    case True
    with a have x: "open_fails l w now oerr = None" by simp
    from on_message_rotate_any [OF True x, of msg] obtain l' w' where
      r: "on_message l w now oerr msg = (None, l', w')" "file' l' = Some (nextfd w)"
      "currentDate l' = Format_20060102 now"
      "fds w' = (case file' l of None \<Rightarrow> fds w | Some f \<Rightarrow> (fds w)(f := None)) (nextfd w \<mapsto> target l now)"
      by blast
    have p: "Join (dirPath l) (filePrefix l @ ''_'' @ currentDate l' @ ''.txt'') = target l now"
      using r(3) by (simp add: target_def)
    have fd: "fds w' (nextfd w) = Some (target l now)" using r(4) by simp
    have hp: "healthy l w \<longrightarrow>
            (\<forall>q. logical l' w' q = logical l w q @
                 (if q = target l now then ''['' @ Format_stamp now @ ''] '' @ msg @ [CHR 0x0A] else []))"
    proof
      assume h: "healthy l w"
      from on_message_rotate [OF c h True x, of msg] obtain l2 w2 where
        s: "on_message l w now oerr msg = (None, l2, w2)"
        "\<forall>q. logical l2 w2 q = logical l w q @ (if q = target l now then log_line now msg else [])"
        by blast
      from r(1) s(1) have e: "l2 = l'" "w2 = w'" by simp_all
      from s(2) show "\<forall>q. logical l' w' q = logical l w q @
                 (if q = target l now then ''['' @ Format_stamp now @ ''] '' @ msg @ [CHR 0x0A] else [])"
        unfolding e by (simp add: log_line_def)
    qed
    show ?thesis
    proof (intro exI conjI)
      show "on_message l w now oerr msg = (None, l', w')" by (rule r(1))
      show "file' l' = Some (nextfd w)" by (rule r(2))
      show "fds w' (nextfd w) = Some (Join (dirPath l) (filePrefix l @ ''_'' @ currentDate l' @ ''.txt''))"
        unfolding p by (rule fd)
      show "currentDate l' = (if needs_open l now then Format_20060102 now else currentDate l)"
        using True r(3) by simp
      show "healthy l w \<longrightarrow>
            (\<forall>q. logical l' w' q = logical l w q @
              (if q = Join (dirPath l) (filePrefix l @ ''_'' @ currentDate l' @ ''.txt'')
               then ''['' @ Format_stamp now @ ''] '' @ msg @ [CHR 0x0A] else []))"
        unfolding p by (rule hp)
    qed
  next
    case False
    from on_message_same_day_any [OF c False, of oerr msg] obtain l' w' where
      r: "on_message l w now oerr msg = (None, l', w')" "file' l' = file' l"
      "currentDate l' = currentDate l" "same_desk w w'"
      by blast
    from False obtain f where f: "file' l = Some f" and d: "currentDate l = Format_20060102 now"
      by (auto simp add: needs_open_def)
    have p: "Join (dirPath l) (filePrefix l @ ''_'' @ currentDate l' @ ''.txt'') = target l now"
      using r(3) d by (simp add: target_def)
    have "fds w f = Some (current_path l)"
      using c f by (cases "writer l") (simp_all add: consistent_def)
    then have fd: "fds w' f = Some (target l now)"
      using r(4) current_path_target [OF d] by (simp add: same_desk_def)
    have hp: "healthy l w \<longrightarrow>
            (\<forall>q. logical l' w' q = logical l w q @
                 (if q = target l now then ''['' @ Format_stamp now @ ''] '' @ msg @ [CHR 0x0A] else []))"
    proof
      assume h: "healthy l w"
      from on_message_same_day [OF c h False, of oerr msg] obtain l2 w2 where
        s: "on_message l w now oerr msg = (None, l2, w2)"
        "\<forall>q. logical l2 w2 q = logical l w q @ (if q = target l now then log_line now msg else [])"
        by blast
      from r(1) s(1) have e: "l2 = l'" "w2 = w'" by simp_all
      from s(2) show "\<forall>q. logical l' w' q = logical l w q @
                 (if q = target l now then ''['' @ Format_stamp now @ ''] '' @ msg @ [CHR 0x0A] else [])"
        unfolding e by (simp add: log_line_def)
    qed
    show ?thesis
    proof (intro exI conjI)
      show "on_message l w now oerr msg = (None, l', w')" by (rule r(1))
      show "file' l' = Some f" using r(2) f by simp
      show "fds w' f = Some (Join (dirPath l) (filePrefix l @ ''_'' @ currentDate l' @ ''.txt''))"
        unfolding p by (rule fd)
      show "currentDate l' = (if needs_open l now then Format_20060102 now else currentDate l)"
        using False r(3) by simp
      show "healthy l w \<longrightarrow>
            (\<forall>q. logical l' w' q = logical l w q @
              (if q = Join (dirPath l) (filePrefix l @ ''_'' @ currentDate l' @ ''.txt'')
               then ''['' @ Format_stamp now @ ''] '' @ msg @ [CHR 0x0A] else []))"
        unfolding p by (rule hp)
    qed
  qed
next
  assume "openFile l t oe w = (None, l1, w1)"
  then show "\<exists>f. file' l1 = Some f \<and>
         fds w1 f = Some (Join (dirPath l) (filePrefix l @ ''_'' @ Format_20060102 t @ ''.txt'')) \<and>
         currentDate l1 = Format_20060102 t"
    by (auto simp add: openFile_def os_OpenFile_def Let_def split: option.splits node.splits)
next
  assume "in_range now \<and> hour now < 24 \<and> minute now < 60 \<and> second now < 60"
  then show "length (Format_stamp now) = 19" by (simp add: length_Format_stamp)
next
  assume "in_range now \<and> hour now < 24 \<and> minute now < 60 \<and> second now < 60"
  then show "length (Format_20060102 now) = 8" by (simp add: length_Format_20060102)
qed

theorem C6_line_and_file_name_witness:
  "consistent (ex_queued []) ex_disk \<and> healthy (ex_queued []) ex_disk \<and> \<not> needs_open (ex_queued []) ex_later \<and>
   open_fails (ex_queued []) ex_disk ex_next_day None = None \<and>
   in_range ex_later \<and> hour ex_later < 24 \<and> minute ex_later < 60 \<and> second ex_later < 60 \<and>
   (\<exists>l' w' f. on_message (ex_queued []) ex_disk ex_later None ''Hello 5'' = (None, l', w') \<and>
      file' l' = Some f \<and> fds w' f = Some (''log'', ''AppLog_20250415.txt'') \<and>
      logical l' w' (''log'', ''AppLog_20250415.txt'') = ''[2025-04-15 09:05:09] Hello 5'' @ [CHR 0x0A]) \<and>
   (\<exists>l' w' f. on_message (ex_queued []) ex_disk ex_next_day None (''a'' @ [CHR 0x0A] @ ''b'') = (None, l', w') \<and>
      file' l' = Some f \<and> fds w' f = Some (''log'', ''AppLog_20250416.txt'') \<and>
      logical l' w' (''log'', ''AppLog_20250416.txt'') =
        ''[2025-04-16 00:00:02] a'' @ [CHR 0x0A] @ ''b'' @ [CHR 0x0A] \<and>
      logical l' w' (''log'', ''AppLog_20250415.txt'') = []) \<and>
   (\<exists>l1 w1 f. openFile (ex_queued []) ex_next_day None ex_disk = (None, l1, w1) \<and> file' l1 = Some f \<and>
      fds w1 f = Some (''log'', ''AppLog_20250416.txt'') \<and> currentDate l1 = ''20250416'') \<and>
   length (Format_stamp ex_later) = 19 \<and> length (Format_20060102 ex_later) = 8"
proof -
  let ?l = "ex_queued []"
  have h: "consistent ?l ex_disk" "\<not> needs_open ?l ex_later" "needs_open ?l ex_next_day"
    "open_fails ?l ex_disk ex_next_day None = None"
    by (simp_all add: ex_consistent ex_needs_open ex_open_fails)
  have rg: "in_range ex_later" "hour ex_later < 24" "minute ex_later < 60" "second ex_later < 60"
    by (simp_all add: in_range_def valid_date_def ex_later_def daysIn_def)
  obtain l0 w0 where o: "openFile ?l ex_next_day None ex_disk = (None, l0, w0)"
    by (simp add: openFile_def os_OpenFile_def Let_def Join_def ex_state_defs ex_dates)
  note t1 = C6_line_and_file_name [where l = ?l and w = ex_disk and now = ex_later and oerr = None
      and msg = "''Hello 5''" and t = ex_next_day and oe = None and ?l1.0 = l0 and ?w1.0 = w0]
  note t2 = C6_line_and_file_name [where l = ?l and w = ex_disk and now = ex_next_day and oerr = None
      and msg = "''a'' @ [CHR 0x0A] @ ''b''" and t = ex_next_day and oe = None and ?l1.0 = l0 and ?w1.0 = w0]
  from t1 h(1,2) obtain l1 w1 f1 where
    r1: "on_message ?l ex_disk ex_later None ''Hello 5'' = (None, l1, w1)" "file' l1 = Some f1"
    "fds w1 f1 = Some (Join (dirPath ?l) (filePrefix ?l @ ''_'' @ currentDate l1 @ ''.txt''))"
    "currentDate l1 = (if needs_open ?l ex_later then Format_20060102 ex_later else currentDate ?l)"
    "healthy ?l ex_disk \<longrightarrow> (\<forall>q. logical l1 w1 q = logical ?l ex_disk q @
        (if q = Join (dirPath ?l) (filePrefix ?l @ ''_'' @ currentDate l1 @ ''.txt'')
         then ''['' @ Format_stamp ex_later @ ''] '' @ ''Hello 5'' @ [CHR 0x0A] else []))"
    by blast
  have hl: "healthy ?l ex_disk" by (rule ex_healthy)
  with r1(5) have r1h: "\<forall>q. logical l1 w1 q = logical ?l ex_disk q @
        (if q = Join (dirPath ?l) (filePrefix ?l @ ''_'' @ currentDate l1 @ ''.txt'')
         then ''['' @ Format_stamp ex_later @ ''] '' @ ''Hello 5'' @ [CHR 0x0A] else [])"
    by blast
  have d1: "currentDate l1 = ''20250415''" using r1(4) h(2) by (simp add: ex_paths)
  have a1: "fds w1 f1 = Some (''log'', ''AppLog_20250415.txt'') \<and>
      logical l1 w1 (''log'', ''AppLog_20250415.txt'') = ''[2025-04-15 09:05:09] Hello 5'' @ [CHR 0x0A]"
    using r1(3) r1h unfolding d1 ex_paths ex_logical by (simp add: Join_def ex_stamps)
  from t2 h(1,4) obtain l2 w2 f2 where
    r2: "on_message ?l ex_disk ex_next_day None (''a'' @ [CHR 0x0A] @ ''b'') = (None, l2, w2)"
    "file' l2 = Some f2"
    "fds w2 f2 = Some (Join (dirPath ?l) (filePrefix ?l @ ''_'' @ currentDate l2 @ ''.txt''))"
    "currentDate l2 = (if needs_open ?l ex_next_day then Format_20060102 ex_next_day else currentDate ?l)"
    "healthy ?l ex_disk \<longrightarrow> (\<forall>q. logical l2 w2 q = logical ?l ex_disk q @
        (if q = Join (dirPath ?l) (filePrefix ?l @ ''_'' @ currentDate l2 @ ''.txt'')
         then ''['' @ Format_stamp ex_next_day @ ''] '' @ (''a'' @ [CHR 0x0A] @ ''b'') @ [CHR 0x0A] else []))"
    by blast
  from hl r2(5) have r2h: "\<forall>q. logical l2 w2 q = logical ?l ex_disk q @
        (if q = Join (dirPath ?l) (filePrefix ?l @ ''_'' @ currentDate l2 @ ''.txt'')
         then ''['' @ Format_stamp ex_next_day @ ''] '' @ (''a'' @ [CHR 0x0A] @ ''b'') @ [CHR 0x0A] else [])"
    by blast
  have d2: "currentDate l2 = ''20250416''" using r2(4) h(3) by (simp add: ex_dates)
  have a2: "fds w2 f2 = Some (''log'', ''AppLog_20250416.txt'') \<and>
      logical l2 w2 (''log'', ''AppLog_20250416.txt'') =
        ''[2025-04-16 00:00:02] a'' @ [CHR 0x0A] @ ''b'' @ [CHR 0x0A] \<and>
      logical l2 w2 (''log'', ''AppLog_20250415.txt'') = []"
    using r2(3) r2h unfolding d2 ex_paths ex_logical by (simp add: Join_def ex_stamps)
  from t1 o obtain f0 where
    r0: "file' l0 = Some f0"
    "fds w0 f0 = Some (Join (dirPath ?l) (filePrefix ?l @ ''_'' @ Format_20060102 ex_next_day @ ''.txt''))"
    "currentDate l0 = Format_20060102 ex_next_day"
    by blast
  have a0: "fds w0 f0 = Some (''log'', ''AppLog_20250416.txt'') \<and> currentDate l0 = ''20250416''"
    using r0(2,3) unfolding ex_paths by (simp add: Join_def ex_dates)
  from t1 rg have ln: "length (Format_stamp ex_later) = 19" "length (Format_20060102 ex_later) = 8"
    by blast+
  show ?thesis
    using h(1,2,4) hl rg r1(1,2) a1 r2(1,2) a2 o r0(1) a0 ln by blast
qed

section \<open>The queue and the factory\<close>


lemma newLogFunc_cases:
  "newLogFunc dir pfx days mkdirErr now0 rerr now oerr w =
     (case mkdirErr of
        Some err \<Rightarrow> Panic (LogInit_mkdir err)
      | None \<Rightarrow>
          (case openFile (init_logger dir pfx days) now oerr
                  (cleanOldLogs (init_logger dir pfx days) now0 rerr w) of
             (Some err, l', w') \<Rightarrow> Panic (LogInit_open err)
           | (None, l', w') \<Rightarrow> Ok (Running, l'\<lparr>wg := wg l' + 1\<rparr>, Printf (Started pfx days) w')))"
  by (cases mkdirErr) (simp_all add: newLogFunc_def init_logger_def Let_def)


lemma sweep_replies: "replies (sweep l c files w) = replies w"
proof (induction files arbitrary: w)
  case Nil
  show ?case by simp
next
  case (Cons f files)
  obtain n nd where f: "f = (n, nd)" by (cases f)
  show ?case
    unfolding f sweep_step by (simp add: Cons.IH os_Remove_def)
qed

text \<open>On a device that takes every write, the stream \<^verbatim>\<open>newLogFunc\<close> returns is healthy.\<close>

lemma newLogFunc_healthy:
  assumes "newLogFunc dir pfx days mkdirErr now0 rerr now oerr w = Ok (g, l', w')" "replies w = []"
  shows "healthy l' w'"
proof -
  define l0 where "l0 = init_logger dir pfx days"
  define w1 where "w1 = cleanOldLogs l0 now0 rerr w"
  have r1: "replies w1 = []"
    using assms(2) by (simp add: w1_def cleanOldLogs_def sweep_replies Let_def split: sum.splits)
  from assms(1) obtain l1 w2 where
    o: "openFile l0 now oerr w1 = (None, l1, w2)" "l' = l1\<lparr>wg := wg l1 + 1\<rparr>"
    "w' = Printf (Started pfx days) w2"
    by (auto simp add: newLogFunc_cases l0_def w1_def split: option.splits prod.splits)
  have x: "open_fails l0 w1 now oerr = None"
  proof (cases "open_fails l0 w1 now oerr")
    case None
    then show ?thesis .
  next
    case (Some e)
    from openFile_failed [OF Some] o(1) show ?thesis by simp
  qed
  then have oe: "oerr = None" and nd: "\<not> is_dir w1 (target l0 now)"
    by (auto simp add: open_fails_def split: option.splits if_splits)
  from openFile_ok [OF nd] o(1) oe have
    l1: "l1 = l0\<lparr>file' := Some (nextfd w1), writer := Some (NewWriter (nextfd w1)),
                 currentDate := Format_20060102 now\<rparr>"
    and w2: "replies w2 = replies w1" "is_file w2 = (is_file w1)(target l0 now := True)"
    by auto
  have cp: "current_path l' = target l0 now"
    by (simp add: o(2) l1 current_path_def target_def)
  show ?thesis
    using r1 w2 cp by (simp add: healthy_def o(3))
qed




text \<open>
  Claim C8. \<^verbatim>\<open>newLogFunc\<close> panics when the directory cannot be made, and panics when the
  first open fails (after the sweep); in both cases nothing is returned. Otherwise it
  returns with the worker started: the file of the current date is open, the wait
  group counts one, the queue is the new channel, and the start is printed.
\<close>

theorem C8_fail_fast_factory:
  "(mkdirErr = Some e \<longrightarrow>
      newLogFunc dir pfx days mkdirErr now0 rerr now oerr w = Panic (LogInit_mkdir e)) \<and>
   (mkdirErr = None \<and>
    open_fails (init_logger dir pfx days) (cleanOldLogs (init_logger dir pfx days) now0 rerr w) now oerr =
      Some e \<longrightarrow>
      newLogFunc dir pfx days mkdirErr now0 rerr now oerr w = Panic (LogInit_open e)) \<and>
   (mkdirErr = None \<and>
    open_fails (init_logger dir pfx days) (cleanOldLogs (init_logger dir pfx days) now0 rerr w) now oerr =
      None \<longrightarrow>
      (\<exists>l' w' f. newLogFunc dir pfx days mkdirErr now0 rerr now oerr w = Ok (Running, l', w') \<and>
         consistent l' w' \<and> wg l' = 1 \<and> msgChan l' = make_chan 1000 \<and>
         dirPath l' = dir \<and> filePrefix l' = pfx \<and> retentionDays l' = days \<and>
         currentDate l' = Format_20060102 now \<and> file' l' = Some f \<and>
         fds w' f = Some (Join dir (pfx @ ''_'' @ Format_20060102 now @ ''.txt'')) \<and>
         console w' = console (cleanOldLogs (init_logger dir pfx days) now0 rerr w) @ [Started pfx days]))"
proof (intro conjI impI)
  assume "mkdirErr = Some e"
  then show "newLogFunc dir pfx days mkdirErr now0 rerr now oerr w = Panic (LogInit_mkdir e)"
    by (simp add: newLogFunc_cases)
next
  assume a: "mkdirErr = None \<and>
    open_fails (init_logger dir pfx days) (cleanOldLogs (init_logger dir pfx days) now0 rerr w) now oerr = Some e"
  then show "newLogFunc dir pfx days mkdirErr now0 rerr now oerr w = Panic (LogInit_open e)"
    using openFile_failed [of "init_logger dir pfx days" _ now oerr e]
    by (simp add: newLogFunc_cases)
next
  define l0 where "l0 = init_logger dir pfx days"
  define w1 where "w1 = cleanOldLogs l0 now0 rerr w"
  assume a: "mkdirErr = None \<and>
    open_fails (init_logger dir pfx days) (cleanOldLogs (init_logger dir pfx days) now0 rerr w) now oerr = None"
  then have m: "mkdirErr = None" and x: "open_fails l0 w1 now oerr = None"
    by (simp_all add: l0_def w1_def)
  from x have oe: "oerr = None" and nd: "\<not> is_dir w1 (target l0 now)"
    by (auto simp add: open_fails_def split: option.splits if_splits)
  define l1 where "l1 = l0\<lparr>file' := Some (nextfd w1), writer := Some (NewWriter (nextfd w1)),
                      currentDate := Format_20060102 now\<rparr>"
  from openFile_ok [OF nd] obtain w2 where
    o: "openFile l0 now None w1 = (None, l1, w2)" "fds w2 = (fds w1)(nextfd w1 \<mapsto> target l0 now)"
    "console w2 = console w1"
    unfolding l1_def by blast
  define l' where "l' = l1\<lparr>wg := wg l1 + 1\<rparr>"
  define w' where "w' = Printf (Started pfx days) w2"
  have res: "newLogFunc dir pfx days mkdirErr now0 rerr now oerr w = Ok (Running, l', w')"
    using m oe o(1) by (simp add: newLogFunc_cases l0_def [symmetric] w1_def [symmetric] l'_def w'_def)
  have tg: "target l0 now = Join dir (pfx @ ''_'' @ Format_20060102 now @ ''.txt'')"
    by (simp add: target_def l0_def init_logger_def)
  have cp: "current_path l' = target l0 now"
    by (simp add: current_path_def target_def l'_def l1_def l0_def init_logger_def)
  have c: "consistent l' w'"
    using o(2) cp by (simp add: consistent_def l'_def l1_def w'_def NewWriter_def)
  have f: "wg l' = 1" "msgChan l' = make_chan 1000" "dirPath l' = dir" "filePrefix l' = pfx"
    "retentionDays l' = days" "currentDate l' = Format_20060102 now" "file' l' = Some (nextfd w1)"
    by (simp_all add: l'_def l1_def l0_def init_logger_def)
  have fd: "fds w' (nextfd w1) = Some (Join dir (pfx @ ''_'' @ Format_20060102 now @ ''.txt''))"
    using o(2) tg by (simp add: w'_def)
  have co: "console w' = console (cleanOldLogs (init_logger dir pfx days) now0 rerr w) @ [Started pfx days]"
    using o(3) by (simp add: w'_def w1_def l0_def)
  show "\<exists>l' w' f. newLogFunc dir pfx days mkdirErr now0 rerr now oerr w = Ok (Running, l', w') \<and>
         consistent l' w' \<and> wg l' = 1 \<and> msgChan l' = make_chan 1000 \<and>
         dirPath l' = dir \<and> filePrefix l' = pfx \<and> retentionDays l' = days \<and>
         currentDate l' = Format_20060102 now \<and> file' l' = Some f \<and>
         fds w' f = Some (Join dir (pfx @ ''_'' @ Format_20060102 now @ ''.txt'')) \<and>
         console w' = console (cleanOldLogs (init_logger dir pfx days) now0 rerr w) @ [Started pfx days]"
    using res c f fd co by blast
qed

lemma ex_swept: "cleanOldLogs (init_logger ''log'' ''AppLog'' 30) ex_now None ex_empty = ex_empty"
  by (simp add: cleanOldLogs_def os_ReadDir_def ex_empty_def init_logger_def)

theorem C8_fail_fast_factory_witness:
  "newLogFunc ''log'' ''AppLog'' 30 (Some ''permission denied'') ex_now None ex_now None ex_empty =
     Panic (LogInit_mkdir ''permission denied'') \<and>
   open_fails (init_logger ''log'' ''AppLog'' 30)
     (cleanOldLogs (init_logger ''log'' ''AppLog'' 30) ex_now None ex_empty) ex_now (Some ''disk full'') =
     Some ''disk full'' \<and>
   newLogFunc ''log'' ''AppLog'' 30 None ex_now None ex_now (Some ''disk full'') ex_empty =
     Panic (LogInit_open ''disk full'') \<and>
   open_fails (init_logger ''log'' ''AppLog'' 30)
     (cleanOldLogs (init_logger ''log'' ''AppLog'' 30) ex_now None ex_empty) ex_now None = None \<and>
   (\<exists>l' w' f. newLogFunc ''log'' ''AppLog'' 30 None ex_now None ex_now None ex_empty = Ok (Running, l', w') \<and>
      consistent l' w' \<and> wg l' = 1 \<and> currentDate l' = ''20250415'' \<and> file' l' = Some f \<and>
      fds w' f = Some (''log'', ''AppLog_20250415.txt'') \<and> console w' = [Started ''AppLog'' 30])"
proof -
  let ?l = "init_logger ''log'' ''AppLog'' 30"
  have x1: "open_fails ?l (cleanOldLogs ?l ex_now None ex_empty) ex_now (Some ''disk full'') = Some ''disk full''"
    by (simp add: open_fails_def)
  have x2: "open_fails ?l (cleanOldLogs ?l ex_now None ex_empty) ex_now None = None"
    unfolding ex_swept by (simp add: open_fails_def is_dir_def ex_empty_def)
  note t1 = C8_fail_fast_factory [where mkdirErr = "Some ''permission denied''" and e = "''permission denied''"
      and dir = "''log''" and pfx = "''AppLog''" and days = 30 and ?now0.0 = ex_now and rerr = None
      and now = ex_now and oerr = None and w = ex_empty]
  note t2 = C8_fail_fast_factory [where mkdirErr = None and e = "''disk full''"
      and dir = "''log''" and pfx = "''AppLog''" and days = 30 and ?now0.0 = ex_now and rerr = None
      and now = ex_now and oerr = "Some ''disk full''" and w = ex_empty]
  note t3 = C8_fail_fast_factory [where mkdirErr = None and e = "''disk full''"
      and dir = "''log''" and pfx = "''AppLog''" and days = 30 and ?now0.0 = ex_now and rerr = None
      and now = ex_now and oerr = None and w = ex_empty]
  from t1 have a: "newLogFunc ''log'' ''AppLog'' 30 (Some ''permission denied'') ex_now None ex_now None ex_empty =
     Panic (LogInit_mkdir ''permission denied'')"
    by blast
  from t2 x1 have b: "newLogFunc ''log'' ''AppLog'' 30 None ex_now None ex_now (Some ''disk full'') ex_empty =
     Panic (LogInit_open ''disk full'')"
    by blast
  from t3 x2 obtain l' w' f where
    r: "newLogFunc ''log'' ''AppLog'' 30 None ex_now None ex_now None ex_empty = Ok (Running, l', w')"
    "consistent l' w'" "wg l' = 1" "currentDate l' = Format_20060102 ex_now" "file' l' = Some f"
    "fds w' f = Some (Join ''log'' (''AppLog'' @ ''_'' @ Format_20060102 ex_now @ ''.txt''))"
    "console w' = console (cleanOldLogs ?l ex_now None ex_empty) @ [Started ''AppLog'' 30]"
    by blast
  have c: "currentDate l' = ''20250415''" "fds w' f = Some (''log'', ''AppLog_20250415.txt'')"
    "console w' = [Started ''AppLog'' 30]"
    using r(4,6,7) unfolding ex_swept by (simp_all add: ex_dates Join_def ex_empty_def)
  show ?thesis using a x1 b x2 r(1,2,3,5) c by blast
qed

section \<open>Panics, the wait group and the closed queue\<close>

lemma flush_writer_frame: "flush_writer l w = (l', w') \<Longrightarrow> static l l'"
  by (auto simp add: flush_writer_def static_def split: option.splits prod.splits)

lemma retire_frame: "retire l w = (l', w') \<Longrightarrow> static l l'"
  by (auto simp add: retire_def Let_def static_def split: prod.splits dest!: flush_writer_frame)

lemma openFile_frame: "openFile l t oe w = (r, l', w') \<Longrightarrow> static l l'"
  by (auto simp add: openFile_def Let_def static_def split: prod.splits sum.splits)

lemma write_msg_frame: "write_msg l w now msg = (r, l', w') \<Longrightarrow> static l l'"
  by (auto simp add: write_msg_def Let_def static_def split: option.splits prod.splits)

lemma on_message_frame:
  assumes "on_message l w now oerr msg = (r, l', w')"
  shows "static l l'"
proof (cases "file' l = None \<or> Format_20060102 now \<noteq> currentDate l")
  case False
  with assms have "write_msg l w now msg = (r, l', w')" by (simp add: on_message_def)
  then show ?thesis by (rule write_msg_frame)
next
  case True
  obtain l2 w2 where r2: "retire l w = (l2, w2)" by (cases "retire l w")
  obtain e l3 w3 where o: "openFile l2 now oerr w2 = (e, l3, w3)" by (cases "openFile l2 now oerr w2")
  have s3: "static l l3"
    using retire_frame [OF r2] openFile_frame [OF o] by (rule static_trans)
  show ?thesis
  proof (cases e)
    case (Some err)
    with assms True r2 o have "l' = l3" by (simp add: on_message_def)
    with s3 show ?thesis by simp
  next
    case None
    with assms True r2 o have
      "write_msg l3 ((Printf (DateChanged (currentDate l3)) w3)\<lparr>sweeps := sweeps w3 + 1\<rparr>) now msg = (r, l', w')"
      by (simp add: on_message_def)
    from s3 write_msg_frame [OF this] show ?thesis by (rule static_trans)
  qed
qed

lemma on_tick_frame: "on_tick l w = (l', w') \<Longrightarrow> static l l'"
  by (auto simp add: on_tick_def static_def split: option.splits prod.splits if_splits)

lemma worker_loop_frame:
  "worker_loop l w es = (x, l', w') \<Longrightarrow>
   wg l' = wg l \<and> closed (msgChan l') = closed (msgChan l) \<and> cap (msgChan l') = cap (msgChan l)"
proof (induction es arbitrary: l w)
  case Nil
  then show ?case by simp
next
  case (Cons e es)
  show ?case
  proof (cases e)
    case Fault
    with Cons.prems show ?thesis by simp
  next
    case Tick
    obtain l1 w1 where t: "on_tick l w = (l1, w1)" by (cases "on_tick l w")
    with Cons.prems Tick have "worker_loop l1 w1 es = (x, l', w')" by simp
    from Cons.IH [OF this] on_tick_frame [OF t] show ?thesis by (simp add: static_def)
  next
    case (Recv now oerr)
    show ?thesis
    proof (cases "recv (msgChan l)")
      case Empty
      with Cons.prems Recv have "worker_loop l w es = (x, l', w')" by simp
      from Cons.IH [OF this] show ?thesis .
    next
      case Drained
      with Cons.prems Recv show ?thesis by simp
    next
      case (Got m c)
      then have c: "closed c = closed (msgChan l)" "cap c = cap (msgChan l)"
        by (auto simp add: recv_def split: list.splits if_splits)
      obtain r l1 w1 where s: "on_message (l\<lparr>msgChan := c\<rparr>) w now oerr m = (r, l1, w1)"
        by (cases "on_message (l\<lparr>msgChan := c\<rparr>) w now oerr m")
      have f1: "wg l1 = wg l" "msgChan l1 = c"
        using on_message_frame [OF s] by (simp_all add: static_def)
      show ?thesis
      proof (cases r)
        case None
        with Cons.prems Recv Got s have "worker_loop l1 w1 es = (x, l', w')" by simp
        from Cons.IH [OF this] f1 c show ?thesis by simp
      next
        case (Some f)
        with Cons.prems Recv Got s have "l' = l1" by simp
        with f1 c show ?thesis by simp
      qed
    qed
  qed
qed

lemma worker_frame:
  "worker g l w es = (g', l', w') \<Longrightarrow>
   closed (msgChan l') = closed (msgChan l) \<and> cap (msgChan l') = cap (msgChan l)"
proof (cases g)
  case Exited
  assume "worker g l w es = (g', l', w')"
  with Exited show ?thesis by (simp add: worker_def)
next
  case Running
  assume a: "worker g l w es = (g', l', w')"
  obtain x l1 w1 where k: "worker_loop l w es = (x, l1, w1)" by (cases "worker_loop l w es")
  note f = worker_loop_frame [OF k]
  show ?thesis
  proof (cases x)
    case Returned
    with a Running k have "l' = wg_Done l1" by (simp add: worker_def runWorker_def)
    with f show ?thesis by simp
  next
    case Waiting
    with a Running k have "l' = l1" by (simp add: worker_def runWorker_def)
    with f show ?thesis by simp
  next
    case Panicked
    obtain l2 w2 where r: "flush_writer l1 w1 = (l2, w2)" by (cases "flush_writer l1 w1")
    with a Running k Panicked have "l' = wg_Done l2" by (simp add: worker_def runWorker_def recovered_def)
    with f flush_writer_frame [OF r] show ?thesis by (simp add: static_def)
  qed
qed

lemma runWorker_panicked:
  assumes "fst (worker_loop l w es) = Panicked"
  shows "\<exists>l' w'. runWorker l w es = (Exited, l', w') \<and> wg l' = wg l - 1 \<and>
           closed (msgChan l') = closed (msgChan l)"
proof -
  obtain l1 w1 where k: "worker_loop l w es = (Panicked, l1, w1)"
    using assms by (cases "worker_loop l w es") auto
  obtain l2 w2 where r: "flush_writer l1 w1 = (l2, w2)" by (cases "flush_writer l1 w1")
  have "runWorker l w es = (Exited, wg_Done l2, w2)"
    using k r by (simp add: runWorker_def recovered_def)
  moreover have "wg (wg_Done l2) = wg l - 1" "closed (msgChan (wg_Done l2)) = closed (msgChan l)"
    using worker_loop_frame [OF k] flush_writer_frame [OF r] by (simp_all add: static_def)
  ultimately show ?thesis by blast
qed

lemma closeFn_after_exit:
  assumes "wg l = 0" "\<not> closed (msgChan l)"
  shows "\<exists>r. closeFn Exited l w es = Ok r"
proof -
  define c where "c = (msgChan l)\<lparr>closed := True\<rparr>"
  obtain l2 w2 where r: "flush_writer (l\<lparr>msgChan := c\<rparr>) w = (l2, w2)"
    by (cases "flush_writer (l\<lparr>msgChan := c\<rparr>) w")
  show ?thesis
    using assms r by (simp add: closeFn_def close_chan_def worker_def c_def [symmetric])
qed

text \<open>
  Claim C9. When the worker's loop ends in a panic (a runtime fault, or the nil writer),
  the deferred calls still run: the recovery flushes, and \<^verbatim>\<open>wg.Done\<close> brings the counter
  from one to zero. A \<^verbatim>\<open>shutdown\<close> called afterwards returns at once, and a \<^verbatim>\<open>shutdown\<close>
  that was waiting while the worker panicked returns as well; neither blocks.
\<close>

theorem C9_done_after_panic:
  "(wg l = 1 \<and> \<not> closed (msgChan l) \<and> fst (worker_loop l w es) = Panicked \<longrightarrow>
      (\<exists>l' w'. runWorker l w es = (Exited, l', w') \<and> wg l' = 0 \<and>
         (\<exists>r. closeFn Exited l' w' es' = Ok r))) \<and>
   (wg l = 1 \<and> \<not> closed (msgChan l) \<and>
    fst (worker_loop (l\<lparr>msgChan := (msgChan l)\<lparr>closed := True\<rparr>\<rparr>) w es) = Panicked \<longrightarrow>
      (\<exists>r. closeFn Running l w es = Ok r))"
proof (intro conjI impI)
  assume a: "wg l = 1 \<and> \<not> closed (msgChan l) \<and> fst (worker_loop l w es) = Panicked"
  from runWorker_panicked [of l w es] a obtain l' w' where
    r: "runWorker l w es = (Exited, l', w')" "wg l' = wg l - 1" "closed (msgChan l') = closed (msgChan l)"
    by blast
  have z: "wg l' = 0" "\<not> closed (msgChan l')" using r(2,3) a by simp_all
  from closeFn_after_exit [OF z] obtain x where "closeFn Exited l' w' es' = Ok x" by blast
  with r(1) z(1) show "\<exists>l' w'. runWorker l w es = (Exited, l', w') \<and> wg l' = 0 \<and>
         (\<exists>r. closeFn Exited l' w' es' = Ok r)"
    by blast
next
  define l0 where "l0 = l\<lparr>msgChan := (msgChan l)\<lparr>closed := True\<rparr>\<rparr>"
  assume a: "wg l = 1 \<and> \<not> closed (msgChan l) \<and>
    fst (worker_loop (l\<lparr>msgChan := (msgChan l)\<lparr>closed := True\<rparr>\<rparr>) w es) = Panicked"
  then have p: "fst (worker_loop l0 w es) = Panicked" by (simp add: l0_def)
  from runWorker_panicked [OF p] obtain l1 w1 where
    r: "runWorker l0 w es = (Exited, l1, w1)" "wg l1 = wg l0 - 1"
    by blast
  have z: "wg l1 = 0" using r(2) a by (simp add: l0_def)
  obtain l2 w2 where f: "flush_writer l1 w1 = (l2, w2)" by (cases "flush_writer l1 w1")
  show "\<exists>r. closeFn Running l w es = Ok r"
    using a r(1) z f by (simp add: closeFn_def close_chan_def worker_def l0_def [symmetric])
qed

theorem C9_done_after_panic_witness:
  "wg (ex_queued [''hello'']) = 1 \<and> \<not> closed (msgChan (ex_queued [''hello''])) \<and>
   fst (worker_loop (ex_queued [''hello'']) ex_disk [Tick, Fault]) = Panicked \<and>
   (\<exists>l' w'. runWorker (ex_queued [''hello'']) ex_disk [Tick, Fault] = (Exited, l', w') \<and>
      wg l' = 0 \<and> (\<exists>r. closeFn Exited l' w' [] = Ok r)) \<and>
   fst (worker_loop ((ex_queued [''hello''])\<lparr>msgChan := (msgChan (ex_queued [''hello'']))\<lparr>closed := True\<rparr>\<rparr>)
          ex_disk [Tick, Fault]) = Panicked \<and>
   (\<exists>r. closeFn Running (ex_queued [''hello'']) ex_disk [Tick, Fault] = Ok r)"
proof -
  let ?l = "ex_queued [''hello'']"
  let ?es = "[Tick, Fault]"
  have h: "wg ?l = 1" "\<not> closed (msgChan ?l)"
    by (simp_all add: ex_state_defs)
  have p1: "fst (worker_loop ?l ex_disk ?es) = Panicked"
    by (simp add: ex_state_defs on_tick_def)
  have p2: "fst (worker_loop (?l\<lparr>msgChan := (msgChan ?l)\<lparr>closed := True\<rparr>\<rparr>) ex_disk ?es) = Panicked"
    by (simp add: ex_state_defs on_tick_def)
  note t = C9_done_after_panic [where l = ?l and w = ex_disk and es = ?es and es' = "[]"]
  from t h p1 have a: "\<exists>l' w'. runWorker ?l ex_disk ?es = (Exited, l', w') \<and> wg l' = 0 \<and>
      (\<exists>r. closeFn Exited l' w' [] = Ok r)"
    by blast
  from t h p2 have b: "\<exists>r. closeFn Running ?l ex_disk ?es = Ok r"
    by blast
  show ?thesis using h p1 a p2 b by blast
qed

lemma closeFn_closes:
  assumes "closeFn g l w es = Ok (g', l', w')"
  shows "closed (msgChan l')"
proof -
  define c where "c = (msgChan l)\<lparr>closed := True\<rparr>"
  from assms have o: "\<not> closed (msgChan l)"
    by (auto simp add: closeFn_def close_chan_def split: if_splits)
  obtain g1 l1 w1 where k: "worker g (l\<lparr>msgChan := c\<rparr>) w es = (g1, l1, w1)"
    by (cases "worker g (l\<lparr>msgChan := c\<rparr>) w es")
  obtain l2 w2 where f: "flush_writer l1 w1 = (l2, w2)" by (cases "flush_writer l1 w1")
  from assms o k f have "l' = l2"
    by (auto simp add: closeFn_def close_chan_def c_def [symmetric] split: if_splits)
  moreover have "closed (msgChan l1)" using worker_frame [OF k] by (simp add: c_def)
  ultimately show ?thesis using flush_writer_frame [OF f] by (simp add: static_def)
qed

text \<open>
  Claim C10. A send on a closed channel panics: once \<^verbatim>\<open>shutdown\<close> has closed the queue,
  whether it is still waiting for the worker or has returned, every \<^verbatim>\<open>emit\<close> panics in
  its caller; the message is neither queued nor is the caller blocked.
\<close>

theorem C10_emit_after_shutdown_panics:
  "(closed (msgChan l) \<longrightarrow> logFn l m = Panic Send_on_closed_channel) \<and>
   (close_chan (msgChan l) = Ok c \<longrightarrow>
      (\<forall>g' l' w'. worker g (l\<lparr>msgChan := c\<rparr>) w es = (g', l', w') \<longrightarrow>
         logFn l' m = Panic Send_on_closed_channel)) \<and>
   (closeFn g l w es = Ok (g1, l1, w1) \<longrightarrow> logFn l1 m = Panic Send_on_closed_channel)"
proof (intro conjI impI allI)
  assume "closed (msgChan l)"
  then show "logFn l m = Panic Send_on_closed_channel" by (simp add: logFn_def send_def)
next
  fix g' l' w'
  assume "close_chan (msgChan l) = Ok c"
  then have c: "closed c" by (auto simp add: close_chan_def split: if_splits)
  assume "worker g (l\<lparr>msgChan := c\<rparr>) w es = (g', l', w')"
  from worker_frame [OF this] c have "closed (msgChan l')" by simp
  then show "logFn l' m = Panic Send_on_closed_channel" by (simp add: logFn_def send_def)
next
  assume "closeFn g l w es = Ok (g1, l1, w1)"
  from closeFn_closes [OF this] show "logFn l1 m = Panic Send_on_closed_channel"
    by (simp add: logFn_def send_def)
qed

theorem C10_emit_after_shutdown_panics_witness:
  "closed (msgChan (ex_closing [])) \<and> logFn (ex_closing []) ''late'' = Panic Send_on_closed_channel \<and>
   close_chan (msgChan (ex_queued [''hello''])) = Ok (msgChan (ex_closing [''hello''])) \<and>
   (\<exists>g' l' w'. worker Running (ex_closing [''hello'']) ex_disk [Tick] = (g', l', w') \<and>
      logFn l' ''late'' = Panic Send_on_closed_channel) \<and>
   (\<exists>l1 w1. closeFn Running (ex_queued [''hello'']) ex_disk cx_sched = Ok (Exited, l1, w1) \<and>
      logFn l1 ''late'' = Panic Send_on_closed_channel)"
proof -
  have h1: "closed (msgChan (ex_closing []))"
    by (simp add: ex_closing_def)
  have h2: "close_chan (msgChan (ex_queued [''hello''])) = Ok (msgChan (ex_closing [''hello'']))"
    by (simp add: close_chan_def ex_closing_def ex_state_defs)
  have e: "(ex_queued [''hello''])\<lparr>msgChan := msgChan (ex_closing [''hello''])\<rparr> = ex_closing [''hello'']"
    by (simp add: ex_closing_def)
  obtain g' l' w' where k: "worker Running (ex_closing [''hello'']) ex_disk [Tick] = (g', l', w')"
    by (cases "worker Running (ex_closing [''hello'']) ex_disk [Tick]")
  obtain l1 w1 where c: "closeFn Running (ex_queued [''hello'']) ex_disk cx_sched = Ok (Exited, l1, w1)"
    using cx_closeFn by blast
  note t1 = C10_emit_after_shutdown_panics [where l = "ex_closing []" and m = "''late''"]
  note t2 = C10_emit_after_shutdown_panics [where l = "ex_queued [''hello'']" and m = "''late''"
      and c = "msgChan (ex_closing [''hello''])" and g = Running and w = ex_disk and es = "[Tick]",
      unfolded e]
  note t3 = C10_emit_after_shutdown_panics [where l = "ex_queued [''hello'']" and m = "''late''"
      and g = Running and w = ex_disk and es = cx_sched and ?g1.0 = Exited and ?l1.0 = l1 and ?w1.0 = w1]
  from t1 h1 have a: "logFn (ex_closing []) ''late'' = Panic Send_on_closed_channel" by blast
  from t2 h2 k have b: "logFn l' ''late'' = Panic Send_on_closed_channel" by blast
  from t3 c have d: "logFn l1 ''late'' = Panic Send_on_closed_channel" by blast
  show ?thesis using h1 a h2 k b c d by blast
qed

end
